(* ===== verification/Prelude.thy ===== *)
theory Prelude
  imports Main "HOL-Library.Char_ord" "HOL-Library.List_Lexorder" "HOL-Library.Sublist"
    "HOL-Library.AList" "HOL-Library.Code_Target_Numeral"
begin

text \<open>
  What the components of the development share.

  A Rust \<open>String\<close>, \<open>&str\<close>, path or byte slice is a HOL \<open>string\<close>: its list of bytes, one
  \<open>char\<close> per byte (\<open>CHR 0x00\<close> to \<open>CHR 0xFF\<close>).  With \<open>Char_ord\<close> and \<open>List_Lexorder\<close> the
  order \<open><\<close> on \<open>string\<close> is the bytewise lexicographic order, which is the order of Rust's
  \<open>String\<close> (used by \<open>BTreeSet\<close>) and of \<open>[u8]\<close> (used by the FST).

  A \<open>Result\<close> is a value of \<open>pdq_error + 'a\<close>; the kinds of error the code can return are the
  constructors of \<open>pdq_error\<close>.  A \<open>HashMap\<close> whose entries are enumerated is an association
  list (updated by \<open>AList.update\<close>), a \<open>HashSet\<close> a list without duplicates (\<open>List.insert\<close>).
\<close>

named_theorems bytes_order \<open>comparisons of byte strings\<close>
named_theorems std_simps \<open>facts on the modelled parts of the Rust standard library\<close>

type_synonym path = string
type_synonym column = string

text \<open>Why \<open>str::parse\<close> fails for an unsigned integer (\<open>std::num::IntErrorKind\<close>).\<close>

datatype int_error = EmptyInt | InvalidDigit | PosOverflow

datatype pdq_error =
    IoError
  | NotFound
  | TimeError
  | Utf8Error
  | ParseIntError int_error
  | FstError
  | ParquetError
  | PlanError string
  | Missing string

text \<open>\<open>usize\<close> and \<open>u64\<close> hold the naturals below \<open>2 ^ 64\<close>.\<close>

definition usize_bound :: nat where
  "usize_bound = 2 ^ 64"

section \<open>Results\<close>

text \<open>
  \<open>iter.collect::<Result<Vec<_>>>()\<close>: the values in order, or the first error.
\<close>

fun collect_results :: "('e + 'a) list \<Rightarrow> 'e + 'a list" where
  "collect_results [] = Inr []"
| "collect_results (Inl e # rs) = Inl e"
| "collect_results (Inr x # rs) =
     (case collect_results rs of Inl e \<Rightarrow> Inl e | Inr xs \<Rightarrow> Inr (x # xs))"

lemma collect_results_map_Inr [simp]: "collect_results (map (\<lambda>x. Inr (f x)) xs) = Inr (map f xs)"
  by (induction xs) auto

lemma collect_results_Inr_iff:
  "collect_results rs = Inr xs \<longleftrightarrow> rs = map Inr xs"
proof (induction rs arbitrary: xs)
  case Nil
  then show ?case by auto
next
  case (Cons r rs)
  then show ?case by (cases r; cases xs) (auto split: sum.splits)
qed

section \<open>Lexicographic order of byte strings\<close>

lemma NUL_le [simp, intro]: "CHR 0x00 \<le> c"
  by (simp add: less_eq_char_def)

lemma not_less_NUL [simp]: "\<not> c < CHR 0x00"
  by (simp add: less_char_def)

lemma NUL_less_iff: "CHR 0x00 < c \<longleftrightarrow> c \<noteq> CHR 0x00"
  by (metis NUL_le order_less_le)

lemma append_less_append [simp, bytes_order]: "p @ x < p @ y \<longleftrightarrow> x < (y :: 'a::linorder list)"
  by (induction p) auto

lemma append_le_append [simp, bytes_order]: "p @ x \<le> p @ y \<longleftrightarrow> x \<le> (y :: 'a::linorder list)"
  by (induction p) auto

lemma less_append_self: "x < x @ y \<longleftrightarrow> y \<noteq> ([] :: 'a::linorder list)"
  using append_less_append [of x "[]" y] by (cases y) auto

lemma prefix_le: "prefix x y \<Longrightarrow> x \<le> (y :: 'a::linorder list)"
  using append_le_append [of x "[]"] by (auto elim!: prefixE)

text \<open>
  Two strings neither of which is a prefix of the other differ at a position inside both, so
  their order does not depend on what follows.
\<close>

lemma parallel_less_append:
  fixes x y :: "'a::linorder list"
  assumes "x \<parallel> y"
  shows "x @ u < y @ v \<longleftrightarrow> x < y"
  using assms
proof (induction x arbitrary: y)
  case Nil
  then show ?case by simp
next
  case (Cons a x)
  from Cons.prems obtain b y' where y: "y = b # y'" by (cases y) auto
  show ?case
  proof (cases "a = b")
    case True
    with Cons y have "x \<parallel> y'" by (auto simp: parallel_def)
    with True y Cons.IH show ?thesis by simp
  next
    case False
    with y show ?thesis by auto
  qed
qed

end
