(* ===== verification/Utf8.thy ===== *)
theory Utf8
  imports Prelude
begin

text \<open>
  UTF-8, as the Rust standard library reads and writes it: \<open>char\<close> values are Unicode scalar
  values, \<open>String::push\<close> appends \<open>utf8_encode\<close>, \<open>str::from_utf8\<close> accepts exactly the byte
  strings \<open>utf8_decode\<close> accepts, and \<open>chars\<close> enumerates what it returns.
\<close>

section \<open>Scalar values and their encoding\<close>

definition is_scalar :: "nat \<Rightarrow> bool" where
  "is_scalar c \<longleftrightarrow> c < 0xD800 \<or> 0xE000 \<le> c \<and> c < 0x110000"

definition utf8_encode :: "nat \<Rightarrow> string" where
  "utf8_encode c =
     (if c < 0x80 then [char_of c]
      else if c < 0x800 then [char_of (0xC0 + c div 64), char_of (0x80 + c mod 64)]
      else if c < 0x10000
      then [char_of (0xE0 + c div 4096), char_of (0x80 + c div 64 mod 64),
            char_of (0x80 + c mod 64)]
      else [char_of (0xF0 + c div 262144), char_of (0x80 + c div 4096 mod 64),
            char_of (0x80 + c div 64 mod 64), char_of (0x80 + c mod 64)])"

definition utf8_string :: "nat list \<Rightarrow> string" where
  "utf8_string cs = concat (map utf8_encode cs)"

lemma utf8_string_simps [simp]:
  "utf8_string [] = []"
  "utf8_string (c # cs) = utf8_encode c @ utf8_string cs"
  "utf8_string (cs @ ds) = utf8_string cs @ utf8_string ds"
  by (simp_all add: utf8_string_def)

lemma utf8_encode_nonempty [simp]: "utf8_encode c \<noteq> []"
  by (simp add: utf8_encode_def)

section \<open>Decoding\<close>

definition byte_val :: "char \<Rightarrow> nat" where
  "byte_val b = of_char b"

lemma byte_val_char_of [simp]: "byte_val (char_of n) = n mod 256"
  by (simp add: byte_val_def)

lemma byte_val_less [simp]: "byte_val b < 256"
  by (simp add: byte_val_def)

lemma char_of_byte_val [simp]: "char_of (byte_val b) = b"
  by (simp add: byte_val_def)

lemma char_less_iff: "a < b \<longleftrightarrow> byte_val a < byte_val b"
  by (simp add: byte_val_def less_char_def)

definition is_cont :: "char \<Rightarrow> bool" where
  "is_cont b \<longleftrightarrow> 0x80 \<le> byte_val b \<and> byte_val b < 0xC0"

text \<open>The bits a continuation byte carries.\<close>

definition cont_bits :: "char \<Rightarrow> nat" where
  "cont_bits b = byte_val b - 0x80"

text \<open>One scalar value off the front; overlong forms and surrogates are refused.\<close>

fun utf8_next :: "string \<Rightarrow> (nat \<times> string) option" where
  "utf8_next [] = None"
| "utf8_next (b # bs) =
     (if byte_val b < 0x80 then Some (byte_val b, bs)
      else if byte_val b < 0xC0 then None
      else if byte_val b < 0xE0 then
        (case bs of
           b1 # r \<Rightarrow>
             (let c = (byte_val b - 0xC0) * 64 + cont_bits b1
              in if is_cont b1 \<and> 0x80 \<le> c then Some (c, r) else None)
         | _ \<Rightarrow> None)
      else if byte_val b < 0xF0 then
        (case bs of
           b1 # b2 # r \<Rightarrow>
             (let c = (byte_val b - 0xE0) * 4096 + cont_bits b1 * 64 + cont_bits b2
              in if is_cont b1 \<and> is_cont b2 \<and> 0x800 \<le> c \<and> is_scalar c then Some (c, r) else None)
         | _ \<Rightarrow> None)
      else if byte_val b < 0xF8 then
        (case bs of
           b1 # b2 # b3 # r \<Rightarrow>
             (let c = (byte_val b - 0xF0) * 262144 + cont_bits b1 * 4096 + cont_bits b2 * 64
                        + cont_bits b3
              in if is_cont b1 \<and> is_cont b2 \<and> is_cont b3 \<and> 0x10000 \<le> c \<and> is_scalar c
                 then Some (c, r) else None)
         | _ \<Rightarrow> None)
      else None)"

lemma utf8_next_shorter: "utf8_next s = Some (c, r) \<Longrightarrow> length r < length s"
  by (cases s) (auto simp: Let_def split: if_splits list.splits)

function utf8_decode :: "string \<Rightarrow> nat list option" where
  "utf8_decode s =
     (if s = [] then Some []
      else case utf8_next s of
        None \<Rightarrow> None
      | Some (c, r) \<Rightarrow> (case utf8_decode r of None \<Rightarrow> None | Some cs \<Rightarrow> Some (c # cs)))"
  by pat_completeness auto
termination
  by (relation "measure length") (auto dest: utf8_next_shorter)

declare utf8_decode.simps [simp del]

text \<open>\<open>str::from_utf8\<close> succeeds.\<close>

definition utf8_valid :: "string \<Rightarrow> bool" where
  "utf8_valid s \<longleftrightarrow> utf8_decode s \<noteq> None"

text \<open>\<open>str::chars\<close>; an empty list for bytes that are no \<open>str\<close>.\<close>

definition str_chars :: "string \<Rightarrow> nat list" where
  "str_chars s = (case utf8_decode s of None \<Rightarrow> [] | Some cs \<Rightarrow> cs)"

section \<open>Decoding inverts encoding\<close>
lemma byte_val_lead [simp]:
  "a < 32 \<Longrightarrow> byte_val (char_of (0xC0 + a)) = 0xC0 + a"
  "a < 16 \<Longrightarrow> byte_val (char_of (0xE0 + a)) = 0xE0 + a"
  "a < 8 \<Longrightarrow> byte_val (char_of (0xF0 + a)) = 0xF0 + a"
  by simp_all

lemma byte_val_cont: "b < 64 \<Longrightarrow> byte_val (char_of (0x80 + b)) = 0x80 + b"
  by simp

lemma cont_char_of [simp]:
  assumes "b < 64"
  shows "is_cont (char_of (0x80 + b))" "cont_bits (char_of (0x80 + b)) = b"
  using assms byte_val_cont [OF assms] by (simp_all add: is_cont_def cont_bits_def)

lemma utf8_next_1: "a < 0x80 \<Longrightarrow> utf8_next (char_of a # r) = Some (a, r)"
  by simp

lemma utf8_next_2:
  "a < 32 \<Longrightarrow> b < 64 \<Longrightarrow> 0x80 \<le> a * 64 + b \<Longrightarrow>
   utf8_next (char_of (0xC0 + a) # char_of (0x80 + b) # r) = Some (a * 64 + b, r)"
  by (simp del: byte_val_char_of add: Let_def)

lemma utf8_next_3:
  "a < 16 \<Longrightarrow> b < 64 \<Longrightarrow> d < 64 \<Longrightarrow> 0x800 \<le> a * 4096 + b * 64 + d \<Longrightarrow>
   is_scalar (a * 4096 + b * 64 + d) \<Longrightarrow>
   utf8_next (char_of (0xE0 + a) # char_of (0x80 + b) # char_of (0x80 + d) # r) =
     Some (a * 4096 + b * 64 + d, r)"
  by (simp del: byte_val_char_of add: Let_def)

lemma utf8_next_4:
  "a < 8 \<Longrightarrow> b < 64 \<Longrightarrow> d < 64 \<Longrightarrow> e < 64 \<Longrightarrow>
   0x10000 \<le> a * 262144 + b * 4096 + d * 64 + e \<Longrightarrow>
   is_scalar (a * 262144 + b * 4096 + d * 64 + e) \<Longrightarrow>
   utf8_next (char_of (0xF0 + a) # char_of (0x80 + b) # char_of (0x80 + d) # char_of (0x80 + e) # r) =
     Some (a * 262144 + b * 4096 + d * 64 + e, r)"
  by (simp del: byte_val_char_of add: Let_def)

text \<open>The base-64 digits of a scalar value.\<close>

lemma base64_3: "(c::nat) div 4096 * 4096 + c div 64 mod 64 * 64 + c mod 64 = c"
proof -
  have "c div 4096 = c div 64 div 64" by (simp flip: div_mult2_eq)
  moreover have "c div 64 div 64 * 64 + c div 64 mod 64 = c div 64" by simp
  moreover have "c div 64 * 64 + c mod 64 = c" by simp
  ultimately show ?thesis by linarith
qed

lemma base64_4:
  "(c::nat) div 262144 * 262144 + c div 4096 mod 64 * 4096 + c div 64 mod 64 * 64 + c mod 64 = c"
proof -
  have "c div 262144 = c div 4096 div 64" by (simp flip: div_mult2_eq)
  moreover have "c div 4096 div 64 * 64 + c div 4096 mod 64 = c div 4096" by simp
  ultimately show ?thesis using base64_3 [of c] by linarith
qed

lemma utf8_next_encode:
  assumes "is_scalar c"
  shows "utf8_next (utf8_encode c @ r) = Some (c, r)"
proof -
  consider "c < 0x80" | "0x80 \<le> c" "c < 0x800" | "0x800 \<le> c" "c < 0x10000" | "0x10000 \<le> c"
    by linarith
  then show ?thesis
  proof cases
    case 1
    then show ?thesis by (simp add: utf8_encode_def)
  next
    case 2
    have "utf8_next (char_of (0xC0 + c div 64) # char_of (0x80 + c mod 64) # r)
        = Some (c div 64 * 64 + c mod 64, r)"
      using 2 by (intro utf8_next_2) simp_all
    with 2 show ?thesis by (simp add: utf8_encode_def del: utf8_next.simps)
  next
    case 3
    have "utf8_next (char_of (0xE0 + c div 4096) # char_of (0x80 + c div 64 mod 64)
            # char_of (0x80 + c mod 64) # r) = Some (c, r)"
      using utf8_next_3 [of "c div 4096" "c div 64 mod 64" "c mod 64" r] 3 assms
      by (simp add: base64_3 del: utf8_next.simps)
    with 3 show ?thesis by (simp add: utf8_encode_def del: utf8_next.simps)
  next
    case 4
    have "utf8_next (char_of (0xF0 + c div 262144) # char_of (0x80 + c div 4096 mod 64)
            # char_of (0x80 + c div 64 mod 64) # char_of (0x80 + c mod 64) # r) = Some (c, r)"
      using utf8_next_4 [of "c div 262144" "c div 4096 mod 64" "c div 64 mod 64" "c mod 64" r] 4 assms
      by (simp only: base64_4) (simp add: is_scalar_def del: utf8_next.simps)
    with 4 show ?thesis by (simp add: utf8_encode_def del: utf8_next.simps)
  qed
qed

lemma utf8_decode_Nil [simp]: "utf8_decode [] = Some []"
  by (simp add: utf8_decode.simps)

lemma utf8_decode_encode:
  "is_scalar c \<Longrightarrow> utf8_decode (utf8_encode c @ r) = map_option (Cons c) (utf8_decode r)"
  by (subst utf8_decode.simps) (simp add: utf8_next_encode split: option.split)

lemma utf8_decode_string:
  "list_all is_scalar cs \<Longrightarrow> utf8_decode (utf8_string cs) = Some cs"
  by (induction cs) (simp_all add: utf8_decode_encode)

lemma cont_byte:
  assumes "is_cont b"
  obtains k where "b = char_of (0x80 + k)" "k < 64" "cont_bits b = k"
proof
  show "b = char_of (0x80 + cont_bits b)" "cont_bits b < 64" "cont_bits b = cont_bits b"
    using assms by (auto simp: is_cont_def cont_bits_def)
qed

lemma lead_byte:
  assumes "l \<le> byte_val b"
  obtains a where "b = char_of (l + a)" "byte_val b = l + a"
proof
  show "b = char_of (l + (byte_val b - l))" "byte_val b = l + (byte_val b - l)"
    using assms by auto
qed

lemma base64_digits_3:
  assumes "b < 64" "d < (64::nat)"
  shows "(a * 4096 + b * 64 + d) div 4096 = a" "(a * 4096 + b * 64 + d) div 64 mod 64 = b"
    "(a * 4096 + b * 64 + d) mod 64 = d"
proof -
  have s: "a * 4096 + b * 64 + d = (a * 64 + b) * 64 + d" by simp
  have q: "((a * 64 + b) * 64 + d) div 64 = a * 64 + b"
    using assms by (subst div_mult_self3) simp_all
  show "(a * 4096 + b * 64 + d) div 64 mod 64 = b" using assms unfolding s q by simp
  have "((a * 64 + b) * 64 + d) div (64 * 64) = a"
    unfolding div_mult2_eq q using assms by simp
  then show "(a * 4096 + b * 64 + d) div 4096 = a" by (simp add: s)
  have "((a * 64 + b) * 64 + d) mod 64 = d"
    using assms by (simp only: mod_mult_self3 mod_less)
  then show "(a * 4096 + b * 64 + d) mod 64 = d" by (simp only: s)
qed

lemma base64_digits_4:
  assumes "b < 64" "d < 64" "e < (64::nat)"
  shows "(a * 262144 + b * 4096 + d * 64 + e) div 262144 = a"
    "(a * 262144 + b * 4096 + d * 64 + e) div 4096 mod 64 = b"
    "(a * 262144 + b * 4096 + d * 64 + e) div 64 mod 64 = d"
    "(a * 262144 + b * 4096 + d * 64 + e) mod 64 = e"
proof -
  have s: "a * 262144 + b * 4096 + d * 64 + e = (a * 64 + b) * 4096 + d * 64 + e" by simp
  note q = base64_digits_3 [OF assms(2,3), of "a * 64 + b", folded s]
  show "(a * 262144 + b * 4096 + d * 64 + e) div 4096 mod 64 = b" using assms unfolding q by simp
  have "(a * 262144 + b * 4096 + d * 64 + e) div (4096 * 64) = a"
    unfolding div_mult2_eq q using assms by simp
  then show "(a * 262144 + b * 4096 + d * 64 + e) div 262144 = a" by simp
qed (use base64_digits_3 [OF assms(2,3), of "a * 64 + b"] in \<open>simp_all add: algebra_simps\<close>)

lemma utf8_next_sound:
  assumes "utf8_next s = Some (c, r)"
  shows "is_scalar c" "s = utf8_encode c @ r"
proof -
  obtain b bs where s: "s = b # bs" using assms by (cases s) auto
  consider (1) "byte_val b < 0x80" | (2) "0xC0 \<le> byte_val b" "byte_val b < 0xE0"
    | (3) "0xE0 \<le> byte_val b" "byte_val b < 0xF0" | (4) "0xF0 \<le> byte_val b" "byte_val b < 0xF8"
    using assms s by (fastforce split: if_splits)
  then have "is_scalar c \<and> s = utf8_encode c @ r"
  proof cases
    case 1
    with assms s show ?thesis by (auto simp: is_scalar_def utf8_encode_def)
  next
    case 2
    from lead_byte [OF 2(1)] obtain a where a: "b = char_of (0xC0 + a)" "byte_val b = 0xC0 + a" .
    from assms s 2 a obtain b1 where b1: "bs = b1 # r" "is_cont b1"
      "c = a * 64 + cont_bits b1" "0x80 \<le> c"
      by (auto simp: Let_def split: if_splits list.splits)
    from b1(2) obtain k where k: "b1 = char_of (0x80 + k)" "k < 64" "cont_bits b1 = k"
      by (rule cont_byte)
    from 2 a have "a < 32" by simp
    with b1 k s a show ?thesis by (auto simp: utf8_encode_def is_scalar_def)
  next
    case 3
    from lead_byte [OF 3(1)] obtain a where a: "b = char_of (0xE0 + a)" "byte_val b = 0xE0 + a" .
    from assms s 3 a obtain b1 b2 where bs: "bs = b1 # b2 # r" "is_cont b1" "is_cont b2"
      "c = a * 4096 + cont_bits b1 * 64 + cont_bits b2" "0x800 \<le> c" "is_scalar c"
      by (auto simp: Let_def split: if_splits list.splits)
    obtain k where k: "b1 = char_of (0x80 + k)" "k < 64" "cont_bits b1 = k" using bs(2) by (rule cont_byte)
    obtain l where l: "b2 = char_of (0x80 + l)" "l < 64" "cont_bits b2 = l" using bs(3) by (rule cont_byte)
    from 3 a have "a < 16" by simp
    with k l bs have "c < 0x10000" by simp
    with bs k l s a base64_digits_3 [OF k(2) l(2), of a] show ?thesis by (simp add: utf8_encode_def)
  next
    case 4
    from lead_byte [OF 4(1)] obtain a where a: "b = char_of (0xF0 + a)" "byte_val b = 0xF0 + a" .
    from assms s 4 a obtain b1 b2 b3 where bs: "bs = b1 # b2 # b3 # r" "is_cont b1" "is_cont b2" "is_cont b3"
      "c = a * 262144 + cont_bits b1 * 4096 + cont_bits b2 * 64 + cont_bits b3" "0x10000 \<le> c" "is_scalar c"
      by (auto simp: Let_def split: if_splits list.splits)
    obtain k where k: "b1 = char_of (0x80 + k)" "k < 64" "cont_bits b1 = k" using bs(2) by (rule cont_byte)
    obtain l where l: "b2 = char_of (0x80 + l)" "l < 64" "cont_bits b2 = l" using bs(3) by (rule cont_byte)
    obtain m where m: "b3 = char_of (0x80 + m)" "m < 64" "cont_bits b3 = m" using bs(4) by (rule cont_byte)
    from bs k l m s a base64_digits_4 [OF k(2) l(2) m(2), of a] show ?thesis
      by (simp add: utf8_encode_def)
  qed
  then show "is_scalar c" "s = utf8_encode c @ r" by auto
qed

lemma utf8_decode_sound:
  "utf8_decode s = Some cs \<Longrightarrow> list_all is_scalar cs \<and> s = utf8_string cs"
proof (induction s arbitrary: cs rule: utf8_decode.induct)
  case (1 s)
  show ?case
  proof (cases "s = []")
    case True
    with "1.prems" show ?thesis by (simp)
  next
    case False
    with "1.prems" obtain c r ds where n: "utf8_next s = Some (c, r)" "utf8_decode r = Some ds" "cs = c # ds"
      by (subst (asm) utf8_decode.simps) (auto split: option.splits prod.splits)
    with "1.IH" [OF False n(1) refl] utf8_next_sound [OF n(1)] show ?thesis by simp
  qed
qed

theorem utf8_decode_iff:
  "utf8_decode s = Some cs \<longleftrightarrow> list_all is_scalar cs \<and> s = utf8_string cs"
  using utf8_decode_sound utf8_decode_string by blast

lemma utf8_valid_iff: "utf8_valid s \<longleftrightarrow> (\<exists>cs. list_all is_scalar cs \<and> s = utf8_string cs)"
  by (auto simp: utf8_valid_def utf8_decode_iff)

lemma utf8_string_str_chars [simp]: "utf8_valid s \<Longrightarrow> utf8_string (str_chars s) = s"
  by (auto simp: utf8_valid_iff str_chars_def utf8_decode_string)

lemma str_chars_scalar: "list_all is_scalar (str_chars s)"
  by (auto simp: str_chars_def utf8_decode_iff split: option.split)

lemma str_chars_Nil [simp]: "str_chars [] = []"
  by (simp add: str_chars_def)

lemma utf8_valid_Nil [simp]: "utf8_valid []"
  by (simp add: utf8_valid_def)

lemma utf8_valid_append: "utf8_valid s \<Longrightarrow> utf8_valid t \<Longrightarrow> utf8_valid (s @ t)"
  by (metis list_all_append utf8_string_simps(3) utf8_valid_iff)


section \<open>The byte order is the order of the scalar values\<close>

lemma utf8_encode_parallel:
  assumes "is_scalar c" "is_scalar d" "c \<noteq> d"
  shows "utf8_encode c \<parallel> utf8_encode d"
proof -
  have "\<not> prefix (utf8_encode a) (utf8_encode b)" if "is_scalar a" "is_scalar b" "a \<noteq> b" for a b
    using utf8_next_encode [OF that(1)] utf8_next_encode [OF that(2), of "[]"] that(3)
    by (auto elim!: prefixE)
  from this [OF assms] this [OF assms(2,1)] assms(3) show ?thesis by (auto simp: parallel_def)
qed

lemma less_digits:
  "(c::nat) < d \<Longrightarrow> 0 < k \<Longrightarrow> c div k < d div k \<or> c div k = d div k \<and> c mod k < d mod k"
  by (metis div_le_mono div_mod_decomp less_imp_le_nat nat_add_left_cancel_less nat_less_le)

lemma char_less_add: "l + a < 256 \<Longrightarrow> l + b < 256 \<Longrightarrow> char_of (l + a) < char_of (l + b) \<longleftrightarrow> a < (b::nat)"
  by (simp add: char_less_iff)

lemma utf8_encode_less:
  assumes "c < d" "is_scalar d"
  shows "utf8_encode c < utf8_encode d"
proof -
  have d: "d < 0x110000" using assms by (auto simp: is_scalar_def)
  note 64 = less_digits [where k = 64]
  have e: "x div 4096 = x div 64 div 64" "x div 262144 = x div 64 div 64 div 64" for x :: nat
    by (simp_all flip: div_mult2_eq)
  consider "d < 0x80" | "c < 0x80" "0x80 \<le> d" | "0x80 \<le> c" "d < 0x800" | "c < 0x800" "0x800 \<le> d"
    | "0x800 \<le> c" "d < 0x10000" | "c < 0x10000" "0x10000 \<le> d" | "0x10000 \<le> c"
    by linarith
  then show ?thesis
  proof cases
    case 1
    with assms show ?thesis by (simp add: utf8_encode_def char_less_iff)
  next
    case 2
    with d show ?thesis by (simp add: utf8_encode_def char_less_iff)
  next
    case 3
    with assms(1) 64 [of c d] show ?thesis
      by (auto simp: utf8_encode_def char_less_add)
  next
    case 4
    from 4(1) have "c div 64 < 32 + n" "c div 64 < 48 + n" for n
      by (auto intro: less_le_trans [of _ 32])
    with 4 assms d show ?thesis by (simp add: utf8_encode_def char_less_iff)
  next
    case 5
    with assms(1) 64 [of c d] 64 [of "c div 64" "d div 64"] show ?thesis
      by (auto simp: utf8_encode_def char_less_add e)
  next
    case 6
    from 6(1) have "c < 0x800 \<Longrightarrow> c div 64 < 48 + n" "c div 4096 < 16 + n" for n
      by (auto intro: less_le_trans [of _ 32] less_le_trans [of _ 16])
    with 6 assms d show ?thesis by (simp add: utf8_encode_def char_less_iff)
  next
    case 7
    with assms(1) d 64 [of c d] 64 [of "c div 64" "d div 64"] 64 [of "c div 64 div 64" "d div 64 div 64"]
    show ?thesis
      by (auto simp: utf8_encode_def char_less_add e)
  qed
qed

theorem utf8_encode_order:
  assumes "is_scalar c" "is_scalar d" "c < d"
  shows "utf8_encode c @ x < utf8_encode d @ y"
  using assms by (simp add: parallel_less_append utf8_encode_parallel utf8_encode_less)

text \<open>A byte below \<open>0x80\<close> occurs in an encoded string only as the character it encodes.\<close>

lemma ascii_in_utf8_encode:
  "byte_val b < 0x80 \<Longrightarrow> is_scalar c \<Longrightarrow> b \<in> set (utf8_encode c) \<Longrightarrow> c = byte_val b"
  by (auto simp: utf8_encode_def is_scalar_def split: if_splits)

end
