(* ===== verification/Key_Format.thy ===== *)
theory Key_Format
  imports Utf8
begin

text \<open>
  The key format of the index (\<open>key_format\<close> in \<open>src/lib.rs\<close>): a key is
  \<open>value NUL rg N\<close>, the value, the separator byte, the letters \<open>rg\<close> and the row group number in
  decimal.  \<open>src/index.rs\<close> writes keys (\<open>make_key\<close>, \<open>append_usize\<close>), \<open>src/query.rs\<close> reads the
  row group number back (\<open>parse_row_group_from_key\<close>).

  The lemmas say that reading inverts writing, that keys determine value and row group, and which
  values have keys inside each of the three ranges the searches stream
  (\<open>exact_range_key\<close>, \<open>range_lower_key\<close> with \<open>range_upper_key\<close>, \<open>prefix_upper_key\<close>).
\<close>

section \<open>Constants\<close>

definition VALUE_RG_SEPARATOR :: char where
  "VALUE_RG_SEPARATOR = CHR 0x00"

definition RANGE_UPPER_BOUND_MARKER :: char where
  "RANGE_UPPER_BOUND_MARKER = CHR 0x01"

definition ROW_GROUP_PREFIX :: string where
  "ROW_GROUP_PREFIX = ''rg''"

definition MAX_UNICODE_CHAR :: nat where
  "MAX_UNICODE_CHAR = 0x10FFFF"

lemmas key_format_defs =
  VALUE_RG_SEPARATOR_def RANGE_UPPER_BOUND_MARKER_def ROW_GROUP_PREFIX_def MAX_UNICODE_CHAR_def

section \<open>Decimal numbers, as Display writes and FromStr reads them\<close>

definition digit_char :: "nat \<Rightarrow> char" where
  "digit_char d = char_of (48 + d)"

fun show_nat :: "nat \<Rightarrow> string" where
  "show_nat n = (if n < 10 then [digit_char n] else show_nat (n div 10) @ [digit_char (n mod 10)])"

declare show_nat.simps [simp del]

text \<open>\<open>char::to_digit(10)\<close>.\<close>

definition to_digit :: "char \<Rightarrow> nat option" where
  "to_digit c = (if 48 \<le> byte_val c \<and> byte_val c \<le> 57 then Some (byte_val c - 48) else None)"

text \<open>The digit loop: an invalid digit and a value that needs more than 64 bits are errors.\<close>

fun parse_digits :: "nat \<Rightarrow> string \<Rightarrow> int_error + nat" where
  "parse_digits r [] = Inr r"
| "parse_digits r (c # cs) =
     (case to_digit c of
        None \<Rightarrow> Inl InvalidDigit
      | Some d \<Rightarrow>
          if r * 10 + d < usize_bound then parse_digits (r * 10 + d) cs else Inl PosOverflow)"

text \<open>
  \<open>str::parse::<usize>\<close> and \<open>str::parse::<u64>\<close>: one leading \<open>+\<close> is accepted, an empty string and
  a lone sign are not.
\<close>

definition parse_usize :: "string \<Rightarrow> int_error + nat" where
  "parse_usize s =
     (if s = [] then Inl EmptyInt
      else if s = ''+'' \<or> s = ''-'' then Inl InvalidDigit
      else if hd s = CHR ''+'' then parse_digits 0 (tl s)
      else parse_digits 0 s)"

section \<open>Positions of a byte\<close>

fun position :: "('a \<Rightarrow> bool) \<Rightarrow> 'a list \<Rightarrow> nat option" where
  "position P [] = None"
| "position P (x # xs) = (if P x then Some 0 else map_option Suc (position P xs))"

definition rposition :: "('a \<Rightarrow> bool) \<Rightarrow> 'a list \<Rightarrow> nat option" where
  "rposition P xs = map_option (\<lambda>i. length xs - 1 - i) (position P (rev xs))"

section \<open>Writing and reading keys\<close>

definition append_usize :: "string \<Rightarrow> nat \<Rightarrow> string" where
  "append_usize buffer value = buffer @ show_nat value"

text \<open>The key buffer of \<open>Indexer::index_file\<close> after its four pushes.\<close>

definition make_key :: "string \<Rightarrow> nat \<Rightarrow> string" where
  "make_key value row_group_idx =
     append_usize (value @ [VALUE_RG_SEPARATOR] @ ROW_GROUP_PREFIX) row_group_idx"

definition parse_row_group_from_key :: "string \<Rightarrow> pdq_error + nat option" where
  "parse_row_group_from_key key =
     (case rposition (\<lambda>b. b = VALUE_RG_SEPARATOR) key of
        None \<Rightarrow> Inr None
      | Some null_pos \<Rightarrow>
          (let row_group_bytes = drop (null_pos + 1) key
           in if prefix ROW_GROUP_PREFIX row_group_bytes
              then (let num_bytes = drop (length ROW_GROUP_PREFIX) row_group_bytes
                    in if utf8_valid num_bytes
                       then (case parse_usize num_bytes of
                               Inl e \<Rightarrow> Inl (ParseIntError e)
                             | Inr n \<Rightarrow> Inr (Some n))
                       else Inl Utf8Error)
              else Inr None))"

section \<open>Decimal numbers: lemmas\<close>

lemma byte_val_digit [simp]: "d < 10 \<Longrightarrow> byte_val (digit_char d) = 48 + d"
  by (simp add: digit_char_def)

lemma to_digit_digit [simp]: "d < 10 \<Longrightarrow> to_digit (digit_char d) = Some d"
  by (simp add: to_digit_def)

lemma digit_char_inject: "x < 10 \<Longrightarrow> y < 10 \<Longrightarrow> digit_char x = digit_char y \<longleftrightarrow> x = y"
  using byte_val_digit by (metis add_left_cancel)

lemma show_nat_digits: "\<forall>c \<in> set (show_nat n). \<exists>d < 10. c = digit_char d"
proof (induction n rule: show_nat.induct)
  case (1 n)
  have "n mod 10 < 10" by simp
  with "1.IH" show ?case
    by (subst show_nat.simps) (auto simp del: mod_less_divisor)
qed

lemma show_nat_nonempty [simp]: "show_nat n \<noteq> []" "[] \<noteq> show_nat n"
  by (subst show_nat.simps, simp)+

lemma parse_digits_append:
  "parse_digits r (xs @ ys) =
     (case parse_digits r xs of Inl e \<Rightarrow> Inl e | Inr r' \<Rightarrow> parse_digits r' ys)"
  by (induction xs arbitrary: r) (auto split: option.split)

lemma parse_digits_show: "n < usize_bound \<Longrightarrow> parse_digits 0 (show_nat n) = Inr n"
proof (induction n rule: show_nat.induct)
  case (1 n)
  show ?case
  proof (cases "n < 10")
    case True
    with "1.prems" show ?thesis by (subst show_nat.simps) simp
  next
    case False
    from "1.prems" have "n div 10 < usize_bound" by (simp add: usize_bound_def)
    with False "1.IH" have "parse_digits 0 (show_nat (n div 10)) = Inr (n div 10)" by simp
    with False "1.prems" show ?thesis
      by (subst show_nat.simps) (simp add: parse_digits_append)
  qed
qed

lemma digit_char_neq:
  "d < 10 \<Longrightarrow> digit_char d \<noteq> CHR ''+''" "d < 10 \<Longrightarrow> digit_char d \<noteq> CHR ''-''"
  "d < 10 \<Longrightarrow> digit_char d \<noteq> CHR 0x00" "d < 10 \<Longrightarrow> digit_char d \<noteq> CHR 0x0A"
  "d < 10 \<Longrightarrow> digit_char d \<noteq> CHR 0x0D"
  by (auto dest!: arg_cong [where f = byte_val]) (simp_all add: byte_val_def)

text \<open>A fact that holds of every digit holds of every byte of a printed number.\<close>

lemma show_nat_byte:
  assumes "c \<in> set (show_nat n)" "\<And>d. d < 10 \<Longrightarrow> P (digit_char d)"
  shows "P c"
proof -
  from show_nat_digits assms(1) obtain d where "d < 10" "c = digit_char d" by blast
  with assms(2) show ?thesis by simp
qed

lemma parse_usize_show:
  assumes "n < usize_bound"
  shows "parse_usize (show_nat n) = Inr n"
proof -
  have "hd (show_nat n) \<in> set (show_nat n)" by simp
  then have "hd (show_nat n) \<noteq> CHR ''+''" "hd (show_nat n) \<noteq> CHR ''-''"
    by (rule show_nat_byte, simp add: digit_char_neq)+
  moreover from this have "show_nat n \<noteq> ''+''" "show_nat n \<noteq> ''-''"
    by (metis list.sel(1))+
  ultimately show ?thesis using assms by (simp add: parse_usize_def parse_digits_show)
qed

lemma parse_digits_bound: "parse_digits r s = Inr n \<Longrightarrow> r < usize_bound \<Longrightarrow> n < usize_bound"
  by (induction s arbitrary: r) (auto split: option.splits if_splits)

lemma parse_usize_bound: "parse_usize s = Inr n \<Longrightarrow> n < usize_bound"
  using parse_digits_bound [of 0 _ n]
  by (auto simp: parse_usize_def usize_bound_def split: if_splits)

lemma show_nat_small: "n < 10 \<Longrightarrow> show_nat n = [digit_char n]"
  by (subst show_nat.simps) simp

lemma show_nat_big: "\<not> n < 10 \<Longrightarrow> show_nat n = show_nat (n div 10) @ [digit_char (n mod 10)]"
  by (subst show_nat.simps) simp

lemma show_nat_inject [simp]: "show_nat m = show_nat n \<longleftrightarrow> m = n"
proof
  show "show_nat m = show_nat n \<Longrightarrow> m = n"
  proof (induction m arbitrary: n rule: show_nat.induct)
    case (1 m)
    consider "m < 10" "n < 10" | "m < 10" "\<not> n < 10" | "\<not> m < 10" "n < 10" | "\<not> m < 10" "\<not> n < 10"
      by blast
    then show ?case
    proof cases
      case 4
      with "1.prems" have "show_nat (m div 10) = show_nat (n div 10)"
        "digit_char (m mod 10) = digit_char (n mod 10)" by (simp_all add: show_nat_big)
      with "1.IH" 4(1) have "m div 10 = n div 10" "m mod 10 = n mod 10"
        by (simp_all add: digit_char_inject)
      then show ?thesis by (metis div_mult_mod_eq)
    qed (use "1.prems" in \<open>auto simp: show_nat_small show_nat_big digit_char_inject\<close>)
  qed
qed simp

section \<open>Positions: lemmas\<close>

lemma position_append:
  "position P (xs @ ys) =
     (case position P xs of Some i \<Rightarrow> Some i | None \<Rightarrow> map_option (\<lambda>i. length xs + i) (position P ys))"
proof (induction xs)
  case Nil
  show ?case by (cases "position P ys") auto
next
  case (Cons x xs)
  then show ?case by (cases "position P ys") (auto split: option.split)
qed

lemma position_None_iff: "position P xs = None \<longleftrightarrow> (\<forall>x \<in> set xs. \<not> P x)"
  by (induction xs) auto

lemma position_take: "position P xs = Some i \<Longrightarrow> take i xs = takeWhile (\<lambda>x. \<not> P x) xs"
  by (induction xs arbitrary: i) (auto split: if_splits)

lemma rposition_last:
  "P b \<Longrightarrow> \<forall>y \<in> set ys. \<not> P y \<Longrightarrow> rposition P (xs @ b # ys) = Some (length xs)"
  by (simp add: rposition_def position_append position_None_iff [THEN iffD2])

section \<open>Keys: reading inverts writing\<close>

lemma make_key_eq: "make_key v n = v @ CHR 0x00 # ''rg'' @ show_nat n"
  by (simp add: make_key_def append_usize_def key_format_defs)

lemma show_nat_no_NUL: "CHR 0x00 \<notin> set (show_nat n)"
  using show_nat_byte [where P = "\<lambda>c. c \<noteq> CHR 0x00", OF _ digit_char_neq(3)] by blast

lemma utf8_valid_ascii: "\<forall>c \<in> set s. byte_val c < 0x80 \<Longrightarrow> utf8_valid s"
proof (induction s)
  case (Cons c s)
  then obtain cs where cs: "utf8_decode s = Some cs" by (auto simp: utf8_valid_def)
  with Cons.prems show ?case
    by (subst utf8_valid_def, subst utf8_decode.simps) simp
qed simp

lemma utf8_valid_show_nat [simp]: "utf8_valid (show_nat n)"
  by (rule utf8_valid_ascii) (auto elim!: show_nat_byte)

lemma rposition_make_key:
  "rposition (\<lambda>b. b = VALUE_RG_SEPARATOR) (make_key v n) = Some (length v)"
  unfolding make_key_eq VALUE_RG_SEPARATOR_def
  by (rule rposition_last) (auto simp: show_nat_no_NUL)

lemma parse_make_key:
  assumes "n < usize_bound"
  shows "parse_row_group_from_key (make_key v n) = Inr (Some n)"
proof -
  have "drop (length v + 1) (make_key v n) = ROW_GROUP_PREFIX @ show_nat n"
    by (simp add: make_key_eq ROW_GROUP_PREFIX_def)
  then show ?thesis
    using assms
    by (simp add: parse_row_group_from_key_def rposition_make_key parse_usize_show Let_def)
qed

lemma make_key_inject [simp]: "make_key v m = make_key w n \<longleftrightarrow> v = w \<and> m = n"
proof
  assume eq: "make_key v m = make_key w n"
  from rposition_make_key [of v m] rposition_make_key [of w n] eq
  have "length v = length w" by simp
  with eq show "v = w \<and> m = n" by (simp add: make_key_eq)
qed simp

section \<open>Keys inside the searched ranges\<close>

lemma less_SOH_iff: "c < CHR 0x01 \<longleftrightarrow> c = CHR 0x00"
proof -
  have "byte_val (CHR 0x01) = 1" "byte_val (CHR 0x00) = 0" by (simp_all add: byte_val_def)
  then show ?thesis unfolding char_less_iff
    by (metis char_of_byte_val less_one)
qed

text \<open>The range \<open>[p NUL, p SOH)\<close> holds exactly the strings that begin with \<open>p NUL\<close>.\<close>

lemma exact_range_prefix:
  "p @ [CHR 0x00] \<le> k \<and> k < p @ [CHR 0x01] \<longleftrightarrow> prefix (p @ [CHR 0x00]) k"
proof (induction p arbitrary: k)
  case Nil
  show ?case by (cases k) (auto simp: less_SOH_iff)
next
  case (Cons a p)
  from this [of "tl k"] show ?case by (cases k) auto
qed

lemma prefix_NUL_key:
  "prefix (p @ [CHR 0x00]) (make_key v n) \<longleftrightarrow> v = p \<or> prefix (p @ [CHR 0x00]) v"
  unfolding make_key_eq
proof (induction p arbitrary: v)
  case Nil
  show ?case by (cases v) auto
next
  case (Cons x p)
  have "\<not> prefix (p @ [CHR 0x00]) (''rg'' @ show_nat n)"
    using show_nat_no_NUL [of n] by (auto dest!: set_mono_prefix)
  with Cons.IH show ?case by (cases v) auto
qed

text \<open>Bounds free of NUL compare with the key as with the value.\<close>

lemma range_lower_key:
  assumes "CHR 0x00 \<notin> set a"
  shows "a @ [CHR 0x00] \<le> make_key v n \<longleftrightarrow> a \<le> v"
  unfolding make_key_eq using assms
proof (induction a arbitrary: v)
  case Nil
  then show ?case by (cases v) (auto simp: NUL_less_iff)
next
  case (Cons x a)
  then show ?case by (cases v) (auto simp: NUL_less_iff)
qed

lemma range_upper_key:
  assumes "CHR 0x00 \<notin> set b"
  shows "make_key v n < b @ [CHR 0x01] \<longleftrightarrow> v \<le> b \<or> prefix (b @ [CHR 0x00]) v"
  unfolding make_key_eq using assms
proof (induction b arbitrary: v)
  case Nil
  then show ?case by (cases v) (auto simp: less_SOH_iff)
next
  case (Cons x b)
  then show ?case by (cases v) (auto simp: NUL_less_iff)
qed

text \<open>A value that begins with a character lies below every string that begins with a later one.\<close>

lemma prefix_upper_key:
  assumes "is_scalar c" "is_scalar d" "c < d" "prefix (p @ utf8_encode c) v"
  shows "make_key v n < p @ utf8_encode d @ z"
proof -
  from assms(4) obtain r where "v = p @ utf8_encode c @ r" by (auto elim!: prefixE)
  then show ?thesis
    using utf8_encode_order [OF assms(1-3)] by (simp add: make_key_eq)
qed

text \<open>The bytes before the first NUL of a key, and prefixes of the value.\<close>

lemma key_value_bytes:
  "position (\<lambda>b. b = VALUE_RG_SEPARATOR) (make_key v n) = Some i \<Longrightarrow>
   take i (make_key v n) = takeWhile (\<lambda>b. b \<noteq> CHR 0x00) v"
  by (drule position_take) (simp add: VALUE_RG_SEPARATOR_def make_key_eq takeWhile_tail)

lemma position_make_key:
  "\<exists>i. position (\<lambda>b. b = VALUE_RG_SEPARATOR) (make_key v n) = Some i"
  using position_None_iff [of "\<lambda>b. b = VALUE_RG_SEPARATOR" "make_key v n"]
  by (auto simp: VALUE_RG_SEPARATOR_def make_key_eq)

lemma prefix_takeWhile: "\<forall>x \<in> set p. P x \<Longrightarrow> prefix p (takeWhile P v) \<longleftrightarrow> prefix p v"
proof (induction p arbitrary: v)
  case (Cons x p)
  then show ?case by (cases v) auto
qed simp

end
