(* ===== verification/File_Hash.thy ===== *)
theory File_Hash
  imports Prelude "HOL-Library.Word"
begin

unbundle bit_operations_syntax

text \<open>
  \<open>calculate_file_hash\<close> (\<open>src/lib.rs\<close>): the name of a file's index directory is the hexadecimal
  \<open>DefaultHasher\<close> hash of its path.  \<open>DefaultHasher\<close> is SipHash-1-3 with both keys zero on 64-bit
  words; \<open>str::hash\<close> feeds it the bytes of the string and one byte \<open>0xFF\<close>.
\<close>

type_synonym u64 = "64 word"

section \<open>SipHash-1-3\<close>

record sip_state =
  sv0 :: u64
  sv1 :: u64
  sv2 :: u64
  sv3 :: u64

text \<open>One round.\<close>

definition sip_round :: "sip_state \<Rightarrow> sip_state" where
  "sip_round s =
     (let v0 = sv0 s + sv1 s;
          v2 = sv2 s + sv3 s;
          v1 = word_rotl 13 (sv1 s) XOR v0;
          v0 = word_rotl 32 v0;
          v3 = word_rotl 16 (sv3 s) XOR v2;
          v0 = v0 + v3;
          v3 = word_rotl 21 v3 XOR v0;
          v2 = v2 + v1;
          v1 = word_rotl 17 v1 XOR v2;
          v2 = word_rotl 32 v2
      in \<lparr>sv0 = v0, sv1 = v1, sv2 = v2, sv3 = v3\<rparr>)"

definition sip_init :: sip_state where
  "sip_init = \<lparr>sv0 = 0x736f6d6570736575, sv1 = 0x646f72616e646f6d,
               sv2 = 0x6c7967656e657261, sv3 = 0x7465646279746573\<rparr>"

definition sip_absorb :: "sip_state \<Rightarrow> u64 \<Rightarrow> sip_state" where
  "sip_absorb s m =
     (let s1 = sip_round (s\<lparr>sv3 := sv3 s XOR m\<rparr>) in s1\<lparr>sv0 := sv0 s1 XOR m\<rparr>)"

text \<open>The little-endian value of at most eight bytes.\<close>

fun le_bytes :: "string \<Rightarrow> nat" where
  "le_bytes [] = 0"
| "le_bytes (b # bs) = of_char b + 256 * le_bytes bs"

text \<open>
  Full blocks of eight bytes, then the last block: the bytes left over with the length of the
  whole message modulo 256 in the top byte.
\<close>

fun sip_blocks :: "nat \<Rightarrow> sip_state \<Rightarrow> string \<Rightarrow> sip_state" where
  "sip_blocks len s (b0 # b1 # b2 # b3 # b4 # b5 # b6 # b7 # bs) =
     sip_blocks len (sip_absorb s (word_of_nat (le_bytes [b0, b1, b2, b3, b4, b5, b6, b7]))) bs"
| "sip_blocks len s bs =
     sip_absorb s (word_of_nat (le_bytes bs + 2 ^ 56 * (len mod 256)))"

definition sip_finish :: "sip_state \<Rightarrow> u64" where
  "sip_finish s =
     (let t = sip_round (sip_round (sip_round (s\<lparr>sv2 := sv2 s XOR 0xFF\<rparr>)))
      in sv0 t XOR sv1 t XOR sv2 t XOR sv3 t)"

definition siphash13 :: "string \<Rightarrow> u64" where
  "siphash13 bytes = sip_finish (sip_blocks (length bytes) sip_init bytes)"

section \<open>Hexadecimal\<close>

definition hex_digit :: "nat \<Rightarrow> char" where
  "hex_digit d = (if d < 10 then char_of (48 + d) else char_of (87 + d))"

fun show_hex :: "nat \<Rightarrow> string" where
  "show_hex n = (if n < 16 then [hex_digit n] else show_hex (n div 16) @ [hex_digit (n mod 16)])"

declare show_hex.simps [simp del]

definition calculate_file_hash :: "path \<Rightarrow> string" where
  "calculate_file_hash file_path = show_hex (unat (siphash13 (file_path @ [CHR 0xFF])))"

lemma show_hex_digits: "set (show_hex n) \<subseteq> set ''0123456789abcdef''"
proof (induction n rule: show_hex.induct)
  case (1 n)
  have d: "hex_digit k \<in> set ''0123456789abcdef''" if "k < 16" for k
  proof -
    have "\<forall>k \<in> set [0..<16]. hex_digit k \<in> set ''0123456789abcdef''" by code_simp
    with that show ?thesis by simp
  qed
  show ?case
    using 1 d [of n] d [of "n mod 16"] by (subst show_hex.simps) auto
qed

lemma show_hex_length: "n < 16 ^ Suc k \<Longrightarrow> show_hex n \<noteq> [] \<and> length (show_hex n) \<le> Suc k"
proof (induction k arbitrary: n)
  case 0
  then show ?case by (subst (1 2) show_hex.simps) simp
next
  case (Suc k)
  have "n div 16 < 16 ^ Suc k" using Suc.prems by (simp add: less_mult_imp_div_less)
  from Suc.IH [OF this] show ?case by (subst (1 2) show_hex.simps) simp
qed

end
