(* ===== verification/World.thy ===== *)
theory World
  imports Key_Format File_Hash
begin

text \<open>
  The part of the outside world the program reads and writes: the data files it walks and the
  index directories it keeps, with the pieces of \<open>std::path\<close> and \<open>str\<close> it uses on them.

  What the Parquet reader returns for a data file is data of the model (\<open>contents\<close>): whether the
  file opens, and for each row group whether it opens and which batches it yields.  Arrays other
  than \<open>StringArray\<close> are kept opaque, as the program never looks inside them.  Paths are UTF-8
  strings, so \<open>to_string_lossy\<close> is the identity.  Writes into the index directories succeed
  (no full disk, no missing permission).
\<close>

section \<open>Data files\<close>

datatype array = StringArray "string option list" | OtherArray

type_synonym batch = "(column \<times> array) list"
type_synonym row_group_read = "pdq_error + (pdq_error + batch) list"

record pfile =
  mtime_ns :: int
  fsize :: nat
  contents :: "pdq_error + row_group_read list"

text \<open>\<open>modified()?.duration_since(UNIX_EPOCH)?.as_secs()\<close>.\<close>

definition mtime_secs :: "pfile \<Rightarrow> pdq_error + nat" where
  "mtime_secs f =
     (if mtime_ns f < 0 then Inl TimeError else Inr (nat (mtime_ns f div 1000000000)))"

section \<open>Index directories\<close>

text \<open>An FST file that was created but not finished does not open.\<close>

datatype 'f fst_file = Complete 'f | Partial

record 'f idx_dir =
  meta :: "string option"
  fsts :: "(string \<times> 'f fst_file) list"

datatype 'f entry = IdxDir "'f idx_dir" | OtherEntry

type_synonym 'f index_tree = "(string \<times> 'f entry) list"

text \<open>
  \<open>data\<close> lists every data file in the order \<open>WalkDir\<close> meets it; \<open>indexes\<close> maps the path of an
  index root to its entries, \<open>None\<close> when the directory does not exist.
\<close>

record 'f world =
  data :: "(path \<times> pfile) list"
  indexes :: "path \<Rightarrow> 'f index_tree option"

definition tree_of :: "'f world \<Rightarrow> path \<Rightarrow> 'f index_tree" where
  "tree_of w root = (case indexes w root of None \<Rightarrow> [] | Some t \<Rightarrow> t)"

definition get_dir :: "'f world \<Rightarrow> path \<Rightarrow> string \<Rightarrow> 'f idx_dir option" where
  "get_dir w root h =
     (case map_of (tree_of w root) h of Some (IdxDir d) \<Rightarrow> Some d | _ \<Rightarrow> None)"

definition put_tree :: "path \<Rightarrow> 'f index_tree \<Rightarrow> 'f world \<Rightarrow> 'f world" where
  "put_tree root t w = w\<lparr>indexes := (indexes w)(root \<mapsto> t)\<rparr>"

definition put_dir :: "path \<Rightarrow> string \<Rightarrow> 'f idx_dir \<Rightarrow> 'f world \<Rightarrow> 'f world" where
  "put_dir root h d w = put_tree root (AList.update h (IdxDir d) (tree_of w root)) w"

definition empty_dir :: "'f idx_dir" where
  "empty_dir = \<lparr>meta = None, fsts = []\<rparr>"

text \<open>\<open>create_dir_all\<close> of an index root, and of a file's directory in it.\<close>

definition create_root :: "path \<Rightarrow> 'f world \<Rightarrow> 'f world" where
  "create_root root w = put_tree root (tree_of w root) w"

definition create_index_dir :: "path \<Rightarrow> string \<Rightarrow> 'f world \<Rightarrow> pdq_error + 'f world" where
  "create_index_dir root h w =
     (case map_of (tree_of w root) h of
        None \<Rightarrow> Inr (put_dir root h empty_dir w)
      | Some (IdxDir d) \<Rightarrow> Inr w
      | Some OtherEntry \<Rightarrow> Inl IoError)"

text \<open>Writing a file of an existing index directory.\<close>

definition write_meta :: "path \<Rightarrow> string \<Rightarrow> string \<Rightarrow> 'f world \<Rightarrow> 'f world" where
  "write_meta root h content w =
     (case get_dir w root h of
        None \<Rightarrow> w | Some d \<Rightarrow> put_dir root h (d\<lparr>meta := Some content\<rparr>) w)"

definition write_fst_file :: "path \<Rightarrow> string \<Rightarrow> string \<Rightarrow> 'f fst_file \<Rightarrow> 'f world \<Rightarrow> 'f world" where
  "write_fst_file root h name content w =
     (case get_dir w root h of
        None \<Rightarrow> w | Some d \<Rightarrow> put_dir root h (d\<lparr>fsts := AList.update name content (fsts d)\<rparr>) w)"

section \<open>Paths\<close>

definition path_file_name :: "path \<Rightarrow> string" where
  "path_file_name p = rev (takeWhile (\<lambda>c. c \<noteq> CHR ''/'') (rev p))"

text \<open>\<open>Path::extension\<close> and \<open>Path::file_stem\<close> of a file name.\<close>

definition name_extension :: "string \<Rightarrow> string option" where
  "name_extension n =
     (if n = ''..'' then None
      else case rposition (\<lambda>c. c = CHR ''.'') n of
        None \<Rightarrow> None
      | Some i \<Rightarrow> if i = 0 then None else Some (drop (i + 1) n))"

definition name_stem :: "string \<Rightarrow> string" where
  "name_stem n =
     (if n = ''..'' then n
      else case rposition (\<lambda>c. c = CHR ''.'') n of
        None \<Rightarrow> n
      | Some i \<Rightarrow> if i = 0 then n else take i n)"

definition is_parquet :: "path \<Rightarrow> bool" where
  "is_parquet p \<longleftrightarrow> name_extension (path_file_name p) = Some ''parquet''"

definition fst_name :: "column \<Rightarrow> string" where
  "fst_name column = column @ ''.fst''"

text \<open>The entries \<open>WalkDir::new(dir)\<close> yields: the path itself and everything below it.\<close>

definition below_dir :: "path \<Rightarrow> path \<Rightarrow> bool" where
  "below_dir dir p \<longleftrightarrow>
     p = dir \<or> prefix (if dir \<noteq> [] \<and> last dir = CHR ''/'' then dir else dir @ ''/'') p"

definition walk_parquet :: "'f world \<Rightarrow> path \<Rightarrow> path list" where
  "walk_parquet w dir = filter (\<lambda>p. below_dir dir p \<and> is_parquet p) (map fst (data w))"

section \<open>Lines\<close>

text \<open>\<open>str::lines\<close>: a line ends in LF or CR LF, and a last line without LF keeps a final CR.\<close>

fun lines_of :: "string \<Rightarrow> string list" where
  "lines_of [] = []"
| "lines_of (c # cs) =
     (if c = CHR 0x0A then [] # lines_of cs
      else if c = CHR 0x0D \<and> cs \<noteq> [] \<and> hd cs = CHR 0x0A then [] # lines_of (tl cs)
      else case lines_of cs of [] \<Rightarrow> [[c]] | l # ls \<Rightarrow> (c # l) # ls)"

section \<open>Lemmas\<close>

lemma lines_of_line:
  "CHR 0x0A \<notin> set l \<Longrightarrow> l = [] \<or> last l \<noteq> CHR 0x0D \<Longrightarrow>
   lines_of (l @ CHR 0x0A # rest) = l # lines_of rest"
proof (induction l)
  case (Cons c l)
  then show ?case by (cases l) auto
qed simp

lemma show_nat_line:
  "lines_of (show_nat n @ CHR 0x0A # rest) = show_nat n # lines_of rest"
proof (rule lines_of_line)
  show "CHR 0x0A \<notin> set (show_nat n)"
    using show_nat_byte [where P = "\<lambda>c. c \<noteq> CHR 0x0A", OF _ digit_char_neq(4)] by blast
  have "last (show_nat n) \<in> set (show_nat n)" by simp
  then have "last (show_nat n) \<noteq> CHR 0x0D"
    by (rule show_nat_byte) (simp add: digit_char_neq)
  then show "show_nat n = [] \<or> last (show_nat n) \<noteq> CHR 0x0D" by simp
qed

lemma tree_of_put_tree [simp]:
  "tree_of (put_tree root t w) root' = (if root' = root then t else tree_of w root')"
  by (simp add: tree_of_def put_tree_def)

lemma data_put [simp]:
  "data (put_tree root t w) = data w" "data (put_dir root h d w) = data w"
  "data (create_root root w) = data w" "data (write_meta root h c w) = data w"
  "data (write_fst_file root h n ff w) = data w"
  by (simp_all add: put_tree_def put_dir_def create_root_def write_meta_def write_fst_file_def
      split: option.split)

lemma tree_of_create_root [simp]: "tree_of (create_root root w) root' = tree_of w root'"
  by (simp add: create_root_def)

lemma get_dir_put_dir [simp]:
  "get_dir (put_dir root h d w) root' h' =
     (if root' = root \<and> h' = h then Some d else get_dir w root' h')"
  by (simp add: get_dir_def put_dir_def update_conv')

lemma get_dir_create_root [simp]: "get_dir (create_root root w) = get_dir w"
  by (simp add: get_dir_def fun_eq_iff)

lemma keys_put_dir:
  "set (map fst (tree_of (put_dir root h d w) root)) = insert h (set (map fst (tree_of w root)))"
  by (simp add: put_dir_def dom_update)

lemma distinct_put_dir:
  "distinct (map fst (tree_of w root)) \<Longrightarrow> distinct (map fst (tree_of (put_dir root h d w) root))"
  by (simp add: put_dir_def distinct_update)

end
