(* ===== verification/Fst_Set.thy ===== *)
theory Fst_Set
  imports Key_Format
begin

text \<open>
  The \<open>fst\<close> crate, as far as the program uses it.  Its types and operations are parameters: a
  value \<open>L\<close> of the record \<open>fst_lib\<close> says how \<open>SetBuilder\<close> inserts and finishes, how a finished
  file is mapped and opened (\<open>Mmap::map\<close>, \<open>Set::new\<close>) and what the stream of
  \<open>set.range().ge(lo).lt(hi)\<close> yields.  \<open>fst_ok L\<close> is what the crate documents and the program
  relies on: a builder fed with ascending keys succeeds, the file it finishes opens, and a range
  of the opened set streams the keys between the bounds in ascending order.

  \<open>list_fst\<close> is the reference behaviour written out with a key list; the witnesses run on it.
\<close>

section \<open>The operations of the crate\<close>

record ('b, 'f, 's) fst_lib =
  builder_new :: "pdq_error + 'b"
  builder_insert :: "'b \<Rightarrow> string \<Rightarrow> pdq_error + 'b"
  builder_finish :: "'b \<Rightarrow> pdq_error + 'f"
  set_open :: "'f \<Rightarrow> pdq_error + 's"
  set_range :: "'s \<Rightarrow> string \<Rightarrow> string \<Rightarrow> string list"

text \<open>The end of \<open>Indexer::index_file\<close>: \<open>SetBuilder::new\<close>, the insertion loop, \<open>finish\<close>.\<close>

fun insert_keys :: "('b, 'f, 's) fst_lib \<Rightarrow> 'b \<Rightarrow> string list \<Rightarrow> pdq_error + 'b" where
  "insert_keys L b [] = Inr b"
| "insert_keys L b (k # ks) =
     (case builder_insert L b k of Inl e \<Rightarrow> Inl e | Inr b' \<Rightarrow> insert_keys L b' ks)"

definition write_fst :: "('b, 'f, 's) fst_lib \<Rightarrow> string list \<Rightarrow> pdq_error + 'f" where
  "write_fst L keys =
     (case builder_new L of
        Inl e \<Rightarrow> Inl e
      | Inr b \<Rightarrow>
          (case insert_keys L b keys of Inl e \<Rightarrow> Inl e | Inr b' \<Rightarrow> builder_finish L b'))"

section \<open>What the program relies on\<close>

definition set_holds :: "('b, 'f, 's) fst_lib \<Rightarrow> 's \<Rightarrow> string list \<Rightarrow> bool" where
  "set_holds L s keys \<longleftrightarrow> (\<forall>lo hi. set_range L s lo hi = filter (\<lambda>k. lo \<le> k \<and> k < hi) keys)"

definition fst_ok :: "('b, 'f, 's) fst_lib \<Rightarrow> bool" where
  "fst_ok L \<longleftrightarrow>
     (\<forall>keys. sorted_wrt (<) keys \<longrightarrow>
        (\<exists>f s. write_fst L keys = Inr f \<and> set_open L f = Inr s \<and> set_holds L s keys))"

lemma fst_okE:
  assumes "fst_ok L" "sorted_wrt (<) keys"
  obtains f s where "write_fst L keys = Inr f" "set_open L f = Inr s" "set_holds L s keys"
  using assms by (auto simp: fst_ok_def)

text \<open>
  A set that indexes \<open>P\<close> holds the key of every pair \<open>(value, row group)\<close> of \<open>P\<close> and no other.
\<close>

definition set_indexes ::
  "('b, 'f, 's) fst_lib \<Rightarrow> 's \<Rightarrow> (string \<times> nat) set \<Rightarrow> bool" where
  "set_indexes L s P \<longleftrightarrow>
     (\<exists>keys. set_holds L s keys \<and> set keys = case_prod make_key ` P)
     \<and> (\<forall>(v, n) \<in> P. n < usize_bound)"

lemma set_indexesE:
  assumes "set_indexes L s P"
  obtains keys where "\<forall>lo hi. set_range L s lo hi = filter (\<lambda>k. lo \<le> k \<and> k < hi) keys"
    "set keys = case_prod make_key ` P" "\<forall>(v, n) \<in> P. n < usize_bound"
  using assms by (auto simp: set_indexes_def set_holds_def)

section \<open>The reference instance\<close>

definition list_fst :: "(string list, string list, string list) fst_lib" where
  "list_fst =
     \<lparr>builder_new = Inr [],
      builder_insert = (\<lambda>b k. if b \<noteq> [] \<and> k < last b then Inl FstError else Inr (b @ [k])),
      builder_finish = Inr, set_open = Inr,
      set_range = (\<lambda>s lo hi. filter (\<lambda>k. lo \<le> k \<and> k < hi) s)\<rparr>"

lemma insert_keys_list_fst:
  "sorted_wrt (<) (b @ ks) \<Longrightarrow> insert_keys list_fst b ks = Inr (b @ ks)"
proof (induction ks arbitrary: b)
  case (Cons k ks)
  then have "b \<noteq> [] \<Longrightarrow> last b < k" by (auto simp: sorted_wrt_append)
  with Cons.IH [of "b @ [k]"] Cons.prems show ?case
    by (cases "b = []") (auto simp: list_fst_def)
qed simp

lemma write_list_fst: "sorted_wrt (<) keys \<Longrightarrow> write_fst list_fst keys = Inr keys"
  using insert_keys_list_fst [of "[]" keys] by (simp add: write_fst_def) (simp add: list_fst_def)

lemma list_fst_ok: "fst_ok list_fst"
  unfolding fst_ok_def
proof (intro allI impI)
  fix keys :: "string list"
  assume "sorted_wrt (<) keys"
  then have "write_fst list_fst keys = Inr keys" by (rule write_list_fst)
  moreover have "set_open list_fst keys = Inr keys" "set_holds list_fst keys keys"
    by (simp_all add: list_fst_def set_holds_def)
  ultimately show "\<exists>f s. write_fst list_fst keys = Inr f \<and> set_open list_fst f = Inr s \<and>
      set_holds list_fst s keys" by blast
qed

lemma list_fst_indexes:
  "set keys = case_prod make_key ` P \<Longrightarrow> \<forall>(v, n) \<in> P. n < usize_bound \<Longrightarrow> set_indexes list_fst keys P"
  by (auto simp: set_indexes_def set_holds_def list_fst_def)

end
