(* ===== verification/Set_Search.thy ===== *)
theory Set_Search
  imports Fst_Set
begin

text \<open>
  The searches of \<open>src/query.rs\<close> within one resident FST: \<open>set_has_term\<close>, \<open>search_set\<close> (exact),
  \<open>prefix_search_set\<close> and \<open>range_search_set\<close>.  The three searches stream the keys of a range, read
  a row group number off each key that passes their check, deduplicate (a \<open>HashSet\<close>) and sort.

  The locale \<open>set_search\<close> is the contract the engine's \<open>search_all\<close> relies on: on an FST that
  indexes a set of \<open>(value, row group)\<close> pairs the search succeeds with the ascending list of the
  row groups that hold a hit.  Each search is an interpretation with its own notion of a hit.
\<close>

section \<open>The stream loop\<close>

text \<open>
  \<open>while let Some(key) = stream.next()\<close>: \<open>keep\<close> is the check the prefix search makes before it
  parses; a key that does not parse ends the search with its error.
\<close>

fun collect_row_groups :: "(string \<Rightarrow> bool) \<Rightarrow> string list \<Rightarrow> nat list \<Rightarrow> pdq_error + nat list" where
  "collect_row_groups keep [] row_groups = Inr row_groups"
| "collect_row_groups keep (key # stream) row_groups =
     (if keep key
      then (case parse_row_group_from_key key of
              Inl e \<Rightarrow> Inl e
            | Inr None \<Rightarrow> collect_row_groups keep stream row_groups
            | Inr (Some row_group_id) \<Rightarrow>
                collect_row_groups keep stream (List.insert row_group_id row_groups))
      else collect_row_groups keep stream row_groups)"

definition sorted_row_groups :: "pdq_error + nat list \<Rightarrow> pdq_error + nat list" where
  "sorted_row_groups r = (case r of Inl e \<Rightarrow> Inl e | Inr row_groups \<Rightarrow> Inr (sort row_groups))"

section \<open>Exact search\<close>

definition start_key :: "string \<Rightarrow> string" where
  "start_key term = term @ [VALUE_RG_SEPARATOR]"

definition end_key :: "string \<Rightarrow> string" where
  "end_key term = term @ [RANGE_UPPER_BOUND_MARKER]"

definition set_has_term :: "('b, 'f, 's) fst_lib \<Rightarrow> 's \<Rightarrow> string \<Rightarrow> bool" where
  "set_has_term L s term \<longleftrightarrow> set_range L s (start_key term) (end_key term) \<noteq> []"

definition search_set :: "('b, 'f, 's) fst_lib \<Rightarrow> string \<Rightarrow> 's \<Rightarrow> pdq_error + nat list" where
  "search_set L term s =
     sorted_row_groups
       (collect_row_groups (\<lambda>_. True) (set_range L s (start_key term) (end_key term)) [])"

section \<open>Range search\<close>

definition range_search_set ::
  "('b, 'f, 's) fst_lib \<Rightarrow> string \<Rightarrow> string \<Rightarrow> 's \<Rightarrow> pdq_error + nat list" where
  "range_search_set L start end s =
     sorted_row_groups
       (collect_row_groups (\<lambda>_. True) (set_range L s (start_key start) (end_key end)) [])"

section \<open>Prefix search\<close>

text \<open>\<open>char::from_u32(c + 1).unwrap_or(MAX_UNICODE_CHAR)\<close>.\<close>

definition next_char :: "nat \<Rightarrow> nat" where
  "next_char c = (if is_scalar (c + 1) then c + 1 else MAX_UNICODE_CHAR)"

text \<open>The exclusive upper bound: the last character of the prefix replaced by the next one.\<close>

definition prefix_end_key :: "string \<Rightarrow> string" where
  "prefix_end_key p =
     (if str_chars p = [] then [RANGE_UPPER_BOUND_MARKER]
      else utf8_string (butlast (str_chars p)) @ utf8_encode (next_char (last (str_chars p)))
             @ [VALUE_RG_SEPARATOR])"

text \<open>The check on a streamed key: its bytes before the first separator begin with the prefix.\<close>

definition key_matches_prefix :: "string \<Rightarrow> string \<Rightarrow> bool" where
  "key_matches_prefix p key =
     (case position (\<lambda>b. b = VALUE_RG_SEPARATOR) key of
        None \<Rightarrow> False
      | Some null_pos \<Rightarrow>
          (let value_bytes = take null_pos key
           in length p \<le> length value_bytes \<and> prefix p value_bytes))"

definition prefix_search_set ::
  "('b, 'f, 's) fst_lib \<Rightarrow> string \<Rightarrow> 's \<Rightarrow> pdq_error + nat list" where
  "prefix_search_set L p s =
     sorted_row_groups
       (collect_row_groups (key_matches_prefix p)
          (set_range L s (start_key p) (prefix_end_key p)) [])"

section \<open>The loop on well-formed keys\<close>

lemma collect_row_groups_make_key:
  assumes "\<forall>k \<in> set ks. \<exists>v n. k = make_key v n \<and> n < usize_bound"
  shows "\<exists>rgs. collect_row_groups keep ks acc = Inr rgs
      \<and> set rgs = set acc \<union> {n. \<exists>v. make_key v n \<in> set ks \<and> keep (make_key v n)}
      \<and> (distinct acc \<longrightarrow> distinct rgs)"
  using assms
proof (induction ks arbitrary: acc)
  case Nil
  then show ?case by simp
next
  case (Cons k ks)
  from Cons.prems obtain v n where k: "k = make_key v n" "n < usize_bound" by auto
  show ?case
  proof (cases "keep k")
    case True
    from Cons.IH [of "List.insert n acc"] Cons.prems obtain rgs
      where "collect_row_groups keep ks (List.insert n acc) = Inr rgs"
        "set rgs = set (List.insert n acc) \<union> {n. \<exists>v. make_key v n \<in> set ks \<and> keep (make_key v n)}"
        "distinct acc \<longrightarrow> distinct rgs" by auto
    with True k show ?thesis by (auto simp: parse_make_key)
  next
    case False
    from Cons.IH [of acc] Cons.prems obtain rgs
      where rgs: "collect_row_groups keep ks acc = Inr rgs"
        "set rgs = set acc \<union> {n. \<exists>v. make_key v n \<in> set ks \<and> keep (make_key v n)}"
        "distinct acc \<longrightarrow> distinct rgs" by auto
    have "(make_key w m \<in> set (k # ks) \<and> keep (make_key w m)) \<longleftrightarrow>
        (make_key w m \<in> set ks \<and> keep (make_key w m))" for w m
      using False by auto
    with False rgs show ?thesis by simp
  qed
qed

text \<open>
  A search over a range of an FST that indexes \<open>P\<close>: the row groups of the pairs whose key lies in
  the range and passes the check.
\<close>

lemma search_indexed:
  assumes "set_indexes L s P"
  shows "sorted_row_groups (collect_row_groups keep (set_range L s lo hi) []) =
    Inr (sorted_list_of_set
      {n. \<exists>v. (v, n) \<in> P \<and> lo \<le> make_key v n \<and> make_key v n < hi \<and> keep (make_key v n)})"
proof -
  from assms obtain keys where keys: "\<forall>lo hi. set_range L s lo hi = filter (\<lambda>k. lo \<le> k \<and> k < hi) keys"
    "set keys = case_prod make_key ` P" "\<forall>(v, n) \<in> P. n < usize_bound"
    by (rule set_indexesE)
  have mem: "make_key v n \<in> set keys \<longleftrightarrow> (v, n) \<in> P" for v n
    by (force simp: keys(2))
  have "\<forall>k \<in> set (set_range L s lo hi). \<exists>v n. k = make_key v n \<and> n < usize_bound"
    using keys by auto
  from collect_row_groups_make_key [OF this, of keep "[]"] obtain rgs where rgs:
    "collect_row_groups keep (set_range L s lo hi) [] = Inr rgs" "distinct rgs"
    "set rgs = {n. \<exists>v. make_key v n \<in> set (set_range L s lo hi) \<and> keep (make_key v n)}"
    by auto
  have "sort rgs = sorted_list_of_set (set rgs)"
    using rgs(2) by (simp add: sorted_list_of_set_sort_remdups distinct_remdups_id)
  with rgs show ?thesis by (simp add: sorted_row_groups_def keys(1) mem conj_ac)
qed

section \<open>The contract of a search\<close>

text \<open>The row groups of \<open>P\<close> that hold a hit.\<close>

definition hit_row_groups :: "(string \<Rightarrow> bool) \<Rightarrow> (string \<times> nat) set \<Rightarrow> nat list" where
  "hit_row_groups hit P = sorted_list_of_set {n. \<exists>v. (v, n) \<in> P \<and> hit v}"

text \<open>
  A search takes a query \<open>q\<close>; \<open>ok q\<close> says for which queries it is exact and \<open>hit q v\<close> which values
  it then finds.
\<close>

locale set_search =
  fixes search :: "('b, 'f, 's) fst_lib \<Rightarrow> 'q \<Rightarrow> 's \<Rightarrow> pdq_error + nat list"
    and ok :: "'q \<Rightarrow> bool"
    and hit :: "'q \<Rightarrow> string \<Rightarrow> bool"
  assumes search_hits: "ok q \<Longrightarrow> set_indexes L s P \<Longrightarrow> search L q s = Inr (hit_row_groups (hit q) P)"

definition exact_hit :: "string \<Rightarrow> string \<Rightarrow> bool" where
  "exact_hit term v \<longleftrightarrow> v = term \<or> prefix (term @ [CHR 0x00]) v"

text \<open>
  Exact search also finds a value that continues the term after a NUL byte; for values free of NUL
  a hit is equality.
\<close>

lemma exact_hit_no_NUL: "CHR 0x00 \<notin> set v \<Longrightarrow> exact_hit t v \<longleftrightarrow> v = t"
  by (auto simp: exact_hit_def prefix_def)

lemma exact_range_key:
  "start_key t \<le> make_key v n \<and> make_key v n < end_key t \<longleftrightarrow> exact_hit t v"
  using exact_range_prefix [of t "make_key v n"] prefix_NUL_key [of t v n]
  by (simp add: start_key_def end_key_def key_format_defs exact_hit_def)

interpretation exact: set_search search_set "\<lambda>_. True" exact_hit
proof
  fix L :: "('a, 'b, 'c) fst_lib" and s P t
  assume "set_indexes L s P"
  then show "search_set L t s = Inr (hit_row_groups (exact_hit t) P)"
    unfolding search_set_def hit_row_groups_def
    by (simp add: search_indexed exact_range_key)
qed

lemma set_has_term_iff:
  assumes "set_indexes L s P"
  shows "set_has_term L s t \<longleftrightarrow> (\<exists>v n. (v, n) \<in> P \<and> exact_hit t v)"
proof -
  from assms obtain keys where keys: "\<forall>lo hi. set_range L s lo hi = filter (\<lambda>k. lo \<le> k \<and> k < hi) keys"
    "set keys = case_prod make_key ` P"
    by (rule set_indexesE)
  have "set_has_term L s t \<longleftrightarrow> (\<exists>k \<in> set keys. start_key t \<le> k \<and> k < end_key t)"
    by (auto simp: set_has_term_def keys(1) filter_empty_conv)
  moreover have "(\<exists>k \<in> set keys. Q k) \<longleftrightarrow> (\<exists>v n. (v, n) \<in> P \<and> Q (make_key v n))" for Q
    unfolding keys(2) by force
  ultimately show ?thesis by (simp add: exact_range_key)
qed

definition range_hit :: "string \<Rightarrow> string \<Rightarrow> string \<Rightarrow> bool" where
  "range_hit a b v \<longleftrightarrow> a \<le> v \<and> (v \<le> b \<or> prefix (b @ [CHR 0x00]) v)"

lemma range_hit_no_NUL: "CHR 0x00 \<notin> set v \<Longrightarrow> range_hit a b v \<longleftrightarrow> a \<le> v \<and> v \<le> b"
  by (auto simp: range_hit_def prefix_def)

lemma range_search_hits:
  assumes "CHR 0x00 \<notin> set a" "CHR 0x00 \<notin> set b" "set_indexes L s P"
  shows "range_search_set L a b s = Inr (hit_row_groups (range_hit a b) P)"
proof -
  have "start_key a \<le> make_key v n \<and> make_key v n < end_key b \<longleftrightarrow> range_hit a b v" for v n
    using range_lower_key [OF assms(1), of v n] range_upper_key [OF assms(2), of v n]
    by (simp add: start_key_def end_key_def key_format_defs range_hit_def)
  then show ?thesis
    unfolding range_search_set_def search_indexed [OF assms(3)] hit_row_groups_def by simp
qed

interpretation range: set_search "\<lambda>L (a, b). range_search_set L a b"
  "\<lambda>(a, b). CHR 0x00 \<notin> set a \<and> CHR 0x00 \<notin> set b" "\<lambda>(a, b). range_hit a b"
  by unfold_locales (auto simp: range_search_hits)

text \<open>
  The prefix search is exact for the prefixes it is built for: not empty, free of NUL, and not
  ending in the last Unicode character.
\<close>

definition searchable_prefix :: "string \<Rightarrow> bool" where
  "searchable_prefix p \<longleftrightarrow>
     utf8_valid p \<and> CHR 0x00 \<notin> set p \<and> p \<noteq> [] \<and> last (str_chars p) \<noteq> MAX_UNICODE_CHAR"

lemma next_char_greater:
  "is_scalar c \<Longrightarrow> c \<noteq> MAX_UNICODE_CHAR \<Longrightarrow> c < next_char c \<and> is_scalar (next_char c)"
  by (auto simp: next_char_def is_scalar_def MAX_UNICODE_CHAR_def)

lemma str_chars_nonempty: "utf8_valid p \<Longrightarrow> p \<noteq> [] \<Longrightarrow> str_chars p \<noteq> []"
  by (metis utf8_string_simps(1) utf8_string_str_chars)

lemma key_matches_prefix_iff:
  assumes "CHR 0x00 \<notin> set p"
  shows "key_matches_prefix p (make_key v n) \<longleftrightarrow> prefix p v"
proof -
  from position_make_key obtain i
    where i: "position (\<lambda>b. b = VALUE_RG_SEPARATOR) (make_key v n) = Some i" by blast
  have "prefix p (takeWhile (\<lambda>b. b \<noteq> CHR 0x00) v) \<longleftrightarrow> prefix p v"
    by (rule prefix_takeWhile) (use assms in auto)
  with key_value_bytes [OF i] i show ?thesis
    by (auto simp: key_matches_prefix_def Let_def dest: prefix_length_le)
qed

lemma prefix_key_in_range:
  assumes "searchable_prefix p" "prefix p v"
  shows "start_key p \<le> make_key v n" "make_key v n < prefix_end_key p"
proof -
  from assms(1) have p: "utf8_valid p" "CHR 0x00 \<notin> set p" "p \<noteq> []" "last (str_chars p) \<noteq> MAX_UNICODE_CHAR"
    by (auto simp: searchable_prefix_def)
  show "start_key p \<le> make_key v n"
    using range_lower_key [OF p(2)] prefix_le [OF assms(2)]
    by (simp add: start_key_def key_format_defs)
  let ?cs = "str_chars p"
  note ne = str_chars_nonempty [OF p(1,3)]
  have sc: "is_scalar (last ?cs)"
    using str_chars_scalar [of p] ne by (simp add: list_all_iff)
  have "utf8_string (butlast ?cs) @ utf8_encode (last ?cs) = p"
    using utf8_string_str_chars [OF p(1)] utf8_string_simps(3) [of "butlast ?cs" "[last ?cs]"] ne
    by simp
  with assms(2) next_char_greater [OF sc p(4)] sc ne show "make_key v n < prefix_end_key p"
    by (simp add: prefix_end_key_def prefix_upper_key)
qed

lemma prefix_search_hits:
  assumes "searchable_prefix p" "set_indexes L s P"
  shows "prefix_search_set L p s = Inr (hit_row_groups (prefix p) P)"
proof -
  have "CHR 0x00 \<notin> set p" using assms(1) by (simp add: searchable_prefix_def)
  then have "start_key p \<le> make_key v n \<and> make_key v n < prefix_end_key p
      \<and> key_matches_prefix p (make_key v n) \<longleftrightarrow> prefix p v" for v n
    using prefix_key_in_range [OF assms(1)] by (auto simp: key_matches_prefix_iff)
  then show ?thesis
    unfolding prefix_search_set_def search_indexed [OF assms(2)] hit_row_groups_def by simp
qed

interpretation prefix: set_search prefix_search_set searchable_prefix Sublist.prefix
  by unfold_locales (rule prefix_search_hits)

section \<open>Prefixes the search loses\<close>

text \<open>
  A prefix that ends in U+10FFFF has an upper bound equal to its lower bound, so its range is
  empty.
\<close>

lemma next_char_max: "next_char MAX_UNICODE_CHAR = MAX_UNICODE_CHAR"
  by (simp add: next_char_def is_scalar_def MAX_UNICODE_CHAR_def)

lemma prefix_end_key_max:
  assumes "utf8_valid p" "p \<noteq> []" "last (str_chars p) = MAX_UNICODE_CHAR"
  shows "prefix_end_key p = start_key p"
proof -
  let ?cs = "str_chars p"
  note ne = str_chars_nonempty [OF assms(1,2)]
  have "utf8_string (butlast ?cs) @ utf8_encode (last ?cs) = p"
    using utf8_string_str_chars [OF assms(1)] utf8_string_simps(3) [of "butlast ?cs" "[last ?cs]"] ne
    by simp
  with ne assms(3) show ?thesis by (simp add: prefix_end_key_def start_key_def next_char_max)
qed

end
