(* ===== verification/Indexer.thy ===== *)
theory Indexer
  imports World Set_Search
begin

text \<open>
  The indexer (\<open>src/index.rs\<close>): \<open>index_file\<close> with the reading loops it consists of,
  \<open>needs_indexing\<close>, \<open>build_index\<close>, \<open>build_index_ext\<close> and \<open>prune_orphans\<close>.  Every operation takes
  the world and returns it updated, also when it returns an error, since the writes made before
  the error stay.

  The lemmas characterise the keys read from a file (\<open>file_pairs\<close>), what \<open>index_file\<close> writes,
  and when \<open>needs_indexing\<close> reports an entry as current.
\<close>

section \<open>Reading the keys of a file\<close>

text \<open>A \<open>BTreeSet<String>\<close> is its ascending list; insertion keeps it ascending.\<close>

fun insert_values :: "nat \<Rightarrow> string option list \<Rightarrow> string list \<Rightarrow> string list" where
  "insert_values row_group_idx [] keys = keys"
| "insert_values row_group_idx (None # vs) keys = insert_values row_group_idx vs keys"
| "insert_values row_group_idx (Some value # vs) keys =
     insert_values row_group_idx vs (insort_insert (make_key value row_group_idx) keys)"

text \<open>\<open>column_by_name\<close> finds the first column of the name; only a \<open>StringArray\<close> is read.\<close>

definition read_batch :: "column \<Rightarrow> nat \<Rightarrow> batch \<Rightarrow> string list \<Rightarrow> string list" where
  "read_batch column row_group_idx batch keys =
     (case map_of batch column of
        Some (StringArray arr) \<Rightarrow> insert_values row_group_idx arr keys
      | _ \<Rightarrow> keys)"

fun read_batches ::
  "column \<Rightarrow> nat \<Rightarrow> (pdq_error + batch) list \<Rightarrow> string list \<Rightarrow> pdq_error + string list" where
  "read_batches column row_group_idx [] keys = Inr keys"
| "read_batches column row_group_idx (Inl e # bs) keys = Inl e"
| "read_batches column row_group_idx (Inr batch # bs) keys =
     read_batches column row_group_idx bs (read_batch column row_group_idx batch keys)"

fun read_row_groups ::
  "column \<Rightarrow> nat \<Rightarrow> row_group_read list \<Rightarrow> string list \<Rightarrow> pdq_error + string list" where
  "read_row_groups column row_group_idx [] keys = Inr keys"
| "read_row_groups column row_group_idx (Inl e # rgs) keys = Inl e"
| "read_row_groups column row_group_idx (Inr bs # rgs) keys =
     (case read_batches column row_group_idx bs keys of
        Inl e \<Rightarrow> Inl e
      | Inr keys' \<Rightarrow> read_row_groups column (Suc row_group_idx) rgs keys')"

section \<open>Indexing one file\<close>

definition metadata_content :: "path \<Rightarrow> nat \<Rightarrow> nat \<Rightarrow> nat \<Rightarrow> string" where
  "metadata_content file_path mtime file_size num_row_groups =
     file_path @ ''\<newline>'' @ show_nat mtime @ ''\<newline>'' @ show_nat file_size @ ''\<newline>''
       @ show_nat num_row_groups @ ''\<newline>''"

text \<open>The metadata is written before the FST file is created, and \<open>File::create\<close> truncates.\<close>

definition index_file ::
  "('b, 'f, 's) fst_lib \<Rightarrow> path \<Rightarrow> 'f world \<Rightarrow> path \<Rightarrow> column \<Rightarrow> (pdq_error + unit) \<times> 'f world" where
  "index_file L output_dir w file_path column =
     (case map_of (data w) file_path of
        None \<Rightarrow> (Inl NotFound, w)
      | Some f \<Rightarrow>
     (case contents f of
        Inl e \<Rightarrow> (Inl e, w)
      | Inr rgs \<Rightarrow>
     (case read_row_groups column 0 rgs [] of
        Inl e \<Rightarrow> (Inl e, w)
      | Inr keys \<Rightarrow>
     (let file_hash = calculate_file_hash file_path in
      case create_index_dir output_dir file_hash w of
        Inl e \<Rightarrow> (Inl e, w)
      | Inr w1 \<Rightarrow>
     (case mtime_secs f of
        Inl e \<Rightarrow> (Inl e, w1)
      | Inr mtime \<Rightarrow>
     (let w2 = write_meta output_dir file_hash
                 (metadata_content file_path mtime (fsize f) (length rgs)) w1;
          w3 = write_fst_file output_dir file_hash (fst_name column) Partial w2
      in case write_fst L keys of
        Inl e \<Rightarrow> (Inl e, w3)
      | Inr index \<Rightarrow>
          (Inr (), write_fst_file output_dir file_hash (fst_name column) (Complete index) w3)))))))"

section \<open>Deciding whether a file needs indexing\<close>

definition parse_or_zero :: "string \<Rightarrow> nat" where
  "parse_or_zero l = (case parse_usize l of Inl _ \<Rightarrow> 0 | Inr n \<Rightarrow> n)"

definition needs_indexing :: "path \<Rightarrow> 'f world \<Rightarrow> path \<Rightarrow> column \<Rightarrow> pdq_error + bool" where
  "needs_indexing output_dir w file_path column =
     (case get_dir w output_dir (calculate_file_hash file_path) of
        None \<Rightarrow> Inr True
      | Some d \<Rightarrow>
     (case meta d of
        None \<Rightarrow> Inr True
      | Some content \<Rightarrow>
      if map_of (fsts d) (fst_name column) = None then Inr True
      else
     (case map_of (data w) file_path of
        None \<Rightarrow> Inl NotFound
      | Some f \<Rightarrow>
     (case mtime_secs f of
        Inl e \<Rightarrow> Inl e
      | Inr mtime \<Rightarrow>
      if \<not> utf8_valid content then Inl IoError
      else
     (let lines = lines_of content in
      if length lines < 3 then Inr True
      else Inr (mtime \<noteq> parse_or_zero (lines ! 1) \<or> fsize f \<noteq> parse_or_zero (lines ! 2)))))))"

section \<open>Building and pruning\<close>

fun build_files ::
  "('b, 'f, 's) fst_lib \<Rightarrow> path \<Rightarrow> column \<Rightarrow> bool \<Rightarrow> 'f world \<Rightarrow> path list
   \<Rightarrow> (pdq_error + unit) \<times> 'f world" where
  "build_files L output_dir column force w [] = (Inr (), w)"
| "build_files L output_dir column force w (file_path # ps) =
     (case (if force then Inr True else needs_indexing output_dir w file_path column) of
        Inl e \<Rightarrow> (Inl e, w)
      | Inr True \<Rightarrow>
          (case index_file L output_dir w file_path column of
             (Inl e, w') \<Rightarrow> (Inl e, w')
           | (Inr _, w') \<Rightarrow> build_files L output_dir column force w' ps)
      | Inr False \<Rightarrow> build_files L output_dir column force w ps)"

definition build_index_ext ::
  "('b, 'f, 's) fst_lib \<Rightarrow> path \<Rightarrow> 'f world \<Rightarrow> path \<Rightarrow> column \<Rightarrow> bool
   \<Rightarrow> (pdq_error + unit) \<times> 'f world" where
  "build_index_ext L output_dir w data_dir column force =
     build_files L output_dir column force (create_root output_dir w) (walk_parquet w data_dir)"

definition build_index ::
  "('b, 'f, 's) fst_lib \<Rightarrow> path \<Rightarrow> 'f world \<Rightarrow> path \<Rightarrow> column \<Rightarrow> (pdq_error + unit) \<times> 'f world" where
  "build_index L output_dir w data_dir column = build_index_ext L output_dir w data_dir column False"

text \<open>Whether \<open>prune_orphans\<close> removes an entry of the index root; an unreadable metadata file is an error.\<close>

definition is_orphan :: "'f world \<Rightarrow> 'f entry \<Rightarrow> pdq_error + bool" where
  "is_orphan w entry =
     (case entry of
        OtherEntry \<Rightarrow> Inr False
      | IdxDir d \<Rightarrow>
         (case meta d of
            None \<Rightarrow> Inr True
          | Some content \<Rightarrow>
              if \<not> utf8_valid content then Inl IoError
              else (case lines_of content of
                      [] \<Rightarrow> Inr False
                    | original_path # _ \<Rightarrow> Inr (map_of (data w) original_path = None))))"

text \<open>The loop over the directory listing; \<open>remove_dir_all\<close> drops the entry.\<close>

fun prune_entries ::
  "path \<Rightarrow> 'f index_tree \<Rightarrow> nat \<Rightarrow> 'f world \<Rightarrow> (pdq_error + nat) \<times> 'f world" where
  "prune_entries root [] pruned_count w = (Inr pruned_count, w)"
| "prune_entries root ((h, entry) # es) pruned_count w =
     (case is_orphan w entry of
        Inl e \<Rightarrow> (Inl e, w)
      | Inr False \<Rightarrow> prune_entries root es pruned_count w
      | Inr True \<Rightarrow>
          prune_entries root es (pruned_count + 1)
            (put_tree root (AList.delete h (tree_of w root)) w))"

definition prune_orphans :: "path \<Rightarrow> 'f world \<Rightarrow> (pdq_error + nat) \<times> 'f world" where
  "prune_orphans output_dir w =
     (case indexes w output_dir of
        None \<Rightarrow> (Inr 0, w)
      | Some tree \<Rightarrow> prune_entries output_dir tree 0 w)"

section \<open>What a file contains\<close>

definition batch_values :: "column \<Rightarrow> batch \<Rightarrow> string set" where
  "batch_values column batch =
     (case map_of batch column of Some (StringArray arr) \<Rightarrow> {v. Some v \<in> set arr} | _ \<Rightarrow> {})"

definition row_group_values :: "column \<Rightarrow> row_group_read \<Rightarrow> string set" where
  "row_group_values column rg =
     (case rg of Inl e \<Rightarrow> {} | Inr bs \<Rightarrow> {v. \<exists>b. Inr b \<in> set bs \<and> v \<in> batch_values column b})"

text \<open>The pairs \<open>(value, row group)\<close> of a column: the value occurs in that row group.\<close>

definition file_pairs :: "column \<Rightarrow> pfile \<Rightarrow> (string \<times> nat) set" where
  "file_pairs column f =
     (case contents f of
        Inl e \<Rightarrow> {}
      | Inr rgs \<Rightarrow> {(v, n). n < length rgs \<and> v \<in> row_group_values column (rgs ! n)})"

definition num_row_groups_of :: "pfile \<Rightarrow> nat" where
  "num_row_groups_of f = (case contents f of Inl e \<Rightarrow> 0 | Inr rgs \<Rightarrow> length rgs)"

text \<open>A file every part of which can be read, with a time stamp after the epoch, in 64 bits.\<close>

definition good_file :: "pfile \<Rightarrow> bool" where
  "good_file f \<longleftrightarrow>
     (case contents f of
        Inl e \<Rightarrow> False
      | Inr rgs \<Rightarrow>
          length rgs < usize_bound
          \<and> list_all (\<lambda>rg. case rg of Inl e \<Rightarrow> False | Inr bs \<Rightarrow> list_all (\<lambda>b. \<not> isl b) bs) rgs)
     \<and> 0 \<le> mtime_ns f \<and> nat (mtime_ns f div 1000000000) < usize_bound \<and> fsize f < usize_bound"

definition secs_of :: "pfile \<Rightarrow> nat" where
  "secs_of f = nat (mtime_ns f div 1000000000)"

lemma mtime_secs_good: "good_file f \<Longrightarrow> mtime_secs f = Inr (secs_of f)"
  by (simp add: good_file_def mtime_secs_def secs_of_def)

section \<open>The reading loops collect the keys of the file\<close>

lemma insert_values_set:
  "set (insert_values n vs keys) = set keys \<union> {make_key v n |v. Some v \<in> set vs}"
  by (induction n vs keys rule: insert_values.induct) (auto simp: set_insort_insert)

lemma insert_values_ascending:
  "sorted keys \<Longrightarrow> distinct keys \<Longrightarrow>
   sorted (insert_values n vs keys) \<and> distinct (insert_values n vs keys)"
  by (induction n vs keys rule: insert_values.induct)
     (auto simp: sorted_insort_insert distinct_insort_insert)

lemma read_batch_set:
  "set (read_batch column n b keys) = set keys \<union> {make_key v n |v. v \<in> batch_values column b}"
  by (auto simp: read_batch_def batch_values_def insert_values_set split: option.split array.split)

lemma read_batch_ascending:
  "sorted keys \<Longrightarrow> distinct keys \<Longrightarrow>
   sorted (read_batch column n b keys) \<and> distinct (read_batch column n b keys)"
  by (auto simp: read_batch_def insert_values_ascending split: option.split array.split)

lemma read_batches_correct:
  assumes "read_batches column n bs keys = Inr keys'" "sorted keys" "distinct keys"
  shows "sorted keys' \<and> distinct keys' \<and>
    set keys' = set keys \<union> {make_key v n |v. v \<in> row_group_values column (Inr bs)}"
  using assms
proof (induction column n bs keys rule: read_batches.induct)
  case (3 column n b bs keys)
  then show ?case
    using read_batch_ascending [of keys column n b]
    by (auto simp: row_group_values_def read_batch_set)
qed (auto simp: row_group_values_def)

lemma read_row_groups_correct:
  assumes "read_row_groups column i rgs keys = Inr keys'" "sorted keys" "distinct keys"
  shows "sorted keys' \<and> distinct keys' \<and>
    set keys' = set keys \<union>
      {make_key v (i + n) |v n. n < length rgs \<and> v \<in> row_group_values column (rgs ! n)}"
  using assms
proof (induction column i rgs keys rule: read_row_groups.induct)
  case (3 column i bs rgs keys)
  from "3.prems"(1) obtain k where k: "read_batches column i bs keys = Inr k"
    "read_row_groups column (Suc i) rgs k = Inr keys'" by (auto split: sum.splits)
  from read_batches_correct [OF k(1) "3.prems"(2,3)]
  have b: "sorted k" "distinct k"
    "set k = set keys \<union> {make_key v i |v. v \<in> row_group_values column (Inr bs)}" by auto
  have "{make_key v (i + n) |v n. n < length (Inr bs # rgs) \<and> v \<in> row_group_values column ((Inr bs # rgs) ! n)}
    = {make_key v i |v. v \<in> row_group_values column (Inr bs)} \<union>
      {make_key v (Suc i + n) |v n. n < length rgs \<and> v \<in> row_group_values column (rgs ! n)}"
    (is "?A = ?B \<union> ?C")
  proof
    show "?A \<subseteq> ?B \<union> ?C"
    proof
      fix x assume "x \<in> ?A"
      then obtain v n where x: "x = make_key v (i + n)" "n < Suc (length rgs)"
        "v \<in> row_group_values column ((Inr bs # rgs) ! n)" by auto
      then show "x \<in> ?B \<union> ?C" by (cases n) auto
    qed
    show "?B \<union> ?C \<subseteq> ?A" by (fastforce intro: exI [of _ 0] exI [of _ "Suc _"])
  qed
  with "3.IH" [OF k b(1,2)] b(3) show ?case by auto
qed auto

lemma read_batches_total:
  "list_all (\<lambda>b. \<not> isl b) bs \<Longrightarrow> \<exists>keys'. read_batches column n bs keys = Inr keys'"
  by (induction column n bs keys rule: read_batches.induct) auto

lemma read_row_groups_total:
  "list_all (\<lambda>rg. case rg of Inl e \<Rightarrow> False | Inr bs \<Rightarrow> list_all (\<lambda>b. \<not> isl b) bs) rgs \<Longrightarrow>
   \<exists>keys'. read_row_groups column i rgs keys = Inr keys'"
proof (induction column i rgs keys rule: read_row_groups.induct)
  case (3 column i bs rgs keys)
  then obtain k where "read_batches column i bs keys = Inr k"
    using read_batches_total by fastforce
  with 3 show ?case by auto
qed auto

text \<open>
  The keys of a good file: ascending, and exactly the keys of \<open>file_pairs\<close>.
\<close>

lemma read_good_file:
  assumes "good_file f"
  obtains rgs keys where "contents f = Inr rgs" "read_row_groups column 0 rgs [] = Inr keys"
    "sorted_wrt (<) keys" "set keys = case_prod make_key ` file_pairs column f"
    "\<forall>(v, n) \<in> file_pairs column f. n < usize_bound"
proof -
  from assms obtain rgs where rgs: "contents f = Inr rgs" "length rgs < usize_bound"
    "list_all (\<lambda>rg. case rg of Inl e \<Rightarrow> False | Inr bs \<Rightarrow> list_all (\<lambda>b. \<not> isl b) bs) rgs"
    by (auto simp: good_file_def split: sum.splits)
  obtain keys where keys: "read_row_groups column 0 rgs [] = Inr keys"
    using read_row_groups_total [OF rgs(3)] by blast
  from read_row_groups_correct [OF keys]
  have "sorted_wrt (<) keys" "set keys = case_prod make_key ` file_pairs column f"
    by (auto simp: rgs(1) file_pairs_def strict_sorted_iff image_iff)
  with rgs keys show ?thesis by (intro that) (auto simp: file_pairs_def)
qed

section \<open>What indexing a file writes\<close>

text \<open>The FST file \<open>ff\<close> opens and indexes the column's pairs.\<close>

definition indexes_pairs :: "('b, 'f, 's) fst_lib \<Rightarrow> 'f \<Rightarrow> (string \<times> nat) set \<Rightarrow> bool" where
  "indexes_pairs L ff P \<longleftrightarrow> (\<exists>s. set_open L ff = Inr s \<and> set_indexes L s P)"

definition file_metadata :: "path \<Rightarrow> pfile \<Rightarrow> string" where
  "file_metadata p f = metadata_content p (secs_of f) (fsize f) (num_row_groups_of f)"

definition old_dir :: "'f world \<Rightarrow> path \<Rightarrow> string \<Rightarrow> 'f idx_dir" where
  "old_dir w root h = (case get_dir w root h of None \<Rightarrow> empty_dir | Some d \<Rightarrow> d)"

text \<open>The name of the index directory is not taken by something else.\<close>

definition slot_free :: "'f world \<Rightarrow> path \<Rightarrow> path \<Rightarrow> bool" where
  "slot_free w root p \<longleftrightarrow> map_of (tree_of w root) (calculate_file_hash p) \<noteq> Some OtherEntry"

lemma create_index_dir_free:
  assumes "map_of (tree_of w root) h \<noteq> Some OtherEntry"
  shows "\<exists>w1. create_index_dir root h w = Inr w1 \<and> get_dir w1 root h = Some (old_dir w root h)
    \<and> (\<forall>h'. h' \<noteq> h \<longrightarrow> get_dir w1 root h' = get_dir w root h') \<and> data w1 = data w
    \<and> (\<forall>h'. map_of (tree_of w1 root) h' = Some OtherEntry \<longrightarrow> map_of (tree_of w root) h' = Some OtherEntry)
    \<and> set (map fst (tree_of w1 root)) = insert h (set (map fst (tree_of w root)))
    \<and> (distinct (map fst (tree_of w root)) \<longrightarrow> distinct (map fst (tree_of w1 root)))"
proof (cases "map_of (tree_of w root) h")
  case None
  then have "get_dir w root h = None" by (simp add: get_dir_def)
  with None show ?thesis
    using keys_put_dir [of root h empty_dir w] distinct_put_dir [of w root h empty_dir]
    by (auto simp: create_index_dir_def old_dir_def) (auto simp: put_dir_def update_conv' split: if_splits)
next
  case (Some e)
  with assms obtain d where e: "e = IdxDir d" by (cases e) auto
  with Some have "h \<in> set (map fst (tree_of w root))" by (force dest: map_of_SomeD)
  with Some e show ?thesis by (auto simp: create_index_dir_def old_dir_def get_dir_def)
qed

lemma put_dir_OtherEntry:
  "map_of (tree_of (put_dir root h d w) root) h' = Some OtherEntry \<longleftrightarrow>
     h' \<noteq> h \<and> map_of (tree_of w root) h' = Some OtherEntry"
  by (simp add: put_dir_def update_conv')

lemma index_file_success:
  assumes L: "fst_ok L" and f: "map_of (data w) p = Some f" "good_file f"
    and free: "slot_free w root p"
  obtains ff w' where
    "index_file L root w p column = (Inr (), w')"
    "indexes_pairs L ff (file_pairs column f)"
    "get_dir w' root (calculate_file_hash p) =
       Some \<lparr>meta = Some (file_metadata p f),
             fsts = AList.update (fst_name column) (Complete ff)
                      (AList.update (fst_name column) Partial
                        (fsts (old_dir w root (calculate_file_hash p))))\<rparr>"
    "\<And>h'. h' \<noteq> calculate_file_hash p \<Longrightarrow> get_dir w' root h' = get_dir w root h'"
    "data w' = data w"
    "\<And>h'. map_of (tree_of w' root) h' = Some OtherEntry \<Longrightarrow> map_of (tree_of w root) h' = Some OtherEntry"
    "set (map fst (tree_of w' root)) = insert (calculate_file_hash p) (set (map fst (tree_of w root)))"
    "distinct (map fst (tree_of w root)) \<Longrightarrow> distinct (map fst (tree_of w' root))"
proof -
  let ?h = "calculate_file_hash p"
  from read_good_file [OF f(2), of column] obtain rgs keys
    where k: "contents f = Inr rgs" "read_row_groups column 0 rgs [] = Inr keys"
    "sorted_wrt (<) keys" "set keys = case_prod make_key ` file_pairs column f"
    "\<forall>(v, n) \<in> file_pairs column f. n < usize_bound" .
  from fst_okE [OF L k(3)] obtain ff s
    where ff: "write_fst L keys = Inr ff" "set_open L ff = Inr s" "set_holds L s keys" .
  have ix: "indexes_pairs L ff (file_pairs column f)"
    using ff k(4,5) by (auto simp: indexes_pairs_def set_indexes_def)
  from create_index_dir_free [OF free [unfolded slot_free_def]] obtain w1
    where w1: "create_index_dir root ?h w = Inr w1" "get_dir w1 root ?h = Some (old_dir w root ?h)"
      "\<forall>h'. h' \<noteq> ?h \<longrightarrow> get_dir w1 root h' = get_dir w root h'" "data w1 = data w"
      "\<forall>h'. map_of (tree_of w1 root) h' = Some OtherEntry \<longrightarrow> map_of (tree_of w root) h' = Some OtherEntry"
      "set (map fst (tree_of w1 root)) = insert ?h (set (map fst (tree_of w root)))"
      "distinct (map fst (tree_of w root)) \<longrightarrow> distinct (map fst (tree_of w1 root))" by blast
  define w2 where "w2 = write_meta root ?h (file_metadata p f) w1"
  define w3 where "w3 = write_fst_file root ?h (fst_name column) Partial w2"
  define w4 where "w4 = write_fst_file root ?h (fst_name column) (Complete ff) w3"
  note ws = w2_def w3_def w4_def write_meta_def write_fst_file_def
  have "index_file L root w p column = (Inr (), w4)"
    using f k w1 ff mtime_secs_good [OF f(2)]
    by (simp add: index_file_def Let_def w2_def w3_def w4_def file_metadata_def num_row_groups_of_def)
  moreover have "get_dir w4 root ?h = Some \<lparr>meta = Some (file_metadata p f),
      fsts = AList.update (fst_name column) (Complete ff)
               (AList.update (fst_name column) Partial (fsts (old_dir w root ?h)))\<rparr>"
    by (simp add: ws w1(2))
  moreover have "get_dir w4 root h' = get_dir w root h'" if "h' \<noteq> ?h" for h'
    using that by (simp add: ws w1(2,3))
  moreover have "data w4 = data w" by (simp add: ws w1(2,4))
  moreover have "map_of (tree_of w4 root) h' = Some OtherEntry \<Longrightarrow> map_of (tree_of w root) h' = Some OtherEntry" for h'
    using w1(2,5) by (simp add: ws put_dir_OtherEntry)
  moreover have "set (map fst (tree_of w4 root)) = insert ?h (set (map fst (tree_of w root)))"
    using w1(2,6) by (simp add: ws keys_put_dir del: set_map)
  moreover have "distinct (map fst (tree_of w root)) \<Longrightarrow> distinct (map fst (tree_of w4 root))"
    using w1(2,7) by (simp add: ws distinct_put_dir)
  ultimately show ?thesis using ix that by blast
qed

end
