(* ===== verification/Index_Currency.thy ===== *)
theory Index_Currency
  imports Indexer
begin

text \<open>
  When is an index up to date?  \<open>entry_current\<close> says that a file's metadata and FST describe the
  file as it is; \<open>col_sync\<close> is the invariant the incremental build of one column relies on: an FST
  file of the column indexes the version of the file its metadata describes.  \<open>needs_indexing\<close>
  compares seconds and size only, so the versions a file goes through (\<open>H\<close>) must differ in one of
  them where they differ in content (\<open>stat_determines\<close>).

  The metadata file is shared by all columns of a file.  Re-indexing a changed file for one column
  refreshes it, after which the stale FST of another column passes for current.
\<close>

section \<open>Metadata round trip\<close>

text \<open>A path that is one line of text.\<close>

definition path_ok :: "path \<Rightarrow> bool" where
  "path_ok p \<longleftrightarrow> utf8_valid p \<and> CHR 0x0A \<notin> set p \<and> (p = [] \<or> last p \<noteq> CHR 0x0D)"

lemma lines_of_metadata:
  "path_ok p \<Longrightarrow>
   lines_of (metadata_content p mtime sz n) = [p, show_nat mtime, show_nat sz, show_nat n]"
  by (simp add: metadata_content_def path_ok_def lines_of_line show_nat_line)

lemma utf8_valid_metadata: "path_ok p \<Longrightarrow> utf8_valid (metadata_content p mtime sz n)"
proof -
  have nl: "utf8_valid ''\<newline>''" by (rule utf8_valid_ascii) (simp add: byte_val_def)
  assume "path_ok p"
  then show ?thesis
    unfolding metadata_content_def path_ok_def by (intro utf8_valid_append nl) simp_all
qed

lemma parse_or_zero_show [simp]: "n < usize_bound \<Longrightarrow> parse_or_zero (show_nat n) = n"
  by (simp add: parse_or_zero_def parse_usize_show)

lemma good_file_bounds:
  "good_file f \<Longrightarrow> secs_of f < usize_bound \<and> fsize f < usize_bound \<and> num_row_groups_of f < usize_bound"
  by (auto simp: good_file_def secs_of_def num_row_groups_of_def split: sum.splits)

text \<open>With metadata of a version \<open>g\<close>, a file is re-indexed iff seconds or size changed since.\<close>

lemma needs_indexing_stat:
  assumes "get_dir w root (calculate_file_hash p) = Some d" "meta d = Some (file_metadata p g)"
    "map_of (fsts d) (fst_name column) \<noteq> None" "map_of (data w) p = Some f"
    "good_file f" "good_file g" "path_ok p"
  shows "needs_indexing root w p column = Inr (secs_of f \<noteq> secs_of g \<or> fsize f \<noteq> fsize g)"
  using assms good_file_bounds [of g]
  by (cases "map_of (fsts d) (fst_name column)")
     (simp_all add: needs_indexing_def mtime_secs_good file_metadata_def utf8_valid_metadata
      lines_of_metadata Let_def)

section \<open>Up-to-date entries\<close>

definition entry_current ::
  "('b, 'f, 's) fst_lib \<Rightarrow> 'f world \<Rightarrow> path \<Rightarrow> path \<Rightarrow> column \<Rightarrow> pfile \<Rightarrow> bool" where
  "entry_current L w root p column f \<longleftrightarrow>
     (\<exists>d ff. get_dir w root (calculate_file_hash p) = Some d
        \<and> meta d = Some (file_metadata p f)
        \<and> map_of (fsts d) (fst_name column) = Some (Complete ff)
        \<and> indexes_pairs L ff (file_pairs column f))"

definition stat_determines :: "(path \<Rightarrow> pfile set) \<Rightarrow> bool" where
  "stat_determines H \<longleftrightarrow>
     (\<forall>p. \<forall>f \<in> H p. \<forall>g \<in> H p.
        secs_of f = secs_of g \<and> fsize f = fsize g \<longrightarrow> contents f = contents g)"

definition col_sync ::
  "('b, 'f, 's) fst_lib \<Rightarrow> (path \<Rightarrow> pfile set) \<Rightarrow> path set \<Rightarrow> 'f world \<Rightarrow> path \<Rightarrow> column \<Rightarrow> bool" where
  "col_sync L H S w root column \<longleftrightarrow>
     (\<forall>p \<in> S. \<forall>d x. get_dir w root (calculate_file_hash p) = Some d
        \<and> map_of (fsts d) (fst_name column) = Some x \<longrightarrow>
        (\<exists>g ff. g \<in> H p \<and> good_file g \<and> meta d = Some (file_metadata p g)
           \<and> x = Complete ff \<and> indexes_pairs L ff (file_pairs column g)))"

text \<open>What a build needs of the files it walks and of the index root.\<close>

definition buildable :: "(path \<Rightarrow> pfile set) \<Rightarrow> path set \<Rightarrow> 'f world \<Rightarrow> path \<Rightarrow> bool" where
  "buildable H S w root \<longleftrightarrow>
     inj_on calculate_file_hash S
     \<and> (\<forall>p \<in> S. path_ok p \<and> slot_free w root p
          \<and> (\<exists>f \<in> H p. map_of (data w) p = Some f \<and> good_file f))"

lemma file_pairs_cong: "contents f = contents g \<Longrightarrow> file_pairs column f = file_pairs column g"
  by (simp add: file_pairs_def)

lemma file_metadata_cong:
  "secs_of f = secs_of g \<Longrightarrow> fsize f = fsize g \<Longrightarrow> contents f = contents g \<Longrightarrow>
   file_metadata p f = file_metadata p g"
  by (simp add: file_metadata_def num_row_groups_of_def)

lemma stat_determinesD:
  "stat_determines H \<Longrightarrow> f \<in> H p \<Longrightarrow> g \<in> H p \<Longrightarrow> secs_of f = secs_of g \<Longrightarrow> fsize f = fsize g \<Longrightarrow>
   contents f = contents g"
  unfolding stat_determines_def by blast

lemma col_syncE:
  assumes "col_sync L H S w root column" "p \<in> S" "get_dir w root (calculate_file_hash p) = Some d"
    "map_of (fsts d) (fst_name column) = Some x"
  obtains g ff where "g \<in> H p" "good_file g" "meta d = Some (file_metadata p g)"
    "x = Complete ff" "indexes_pairs L ff (file_pairs column g)"
  using assms unfolding col_sync_def by blast

text \<open>Indexing a file makes its entry current and leaves the entries of other files alone.\<close>

lemma index_file_current:
  assumes L: "fst_ok L" and b: "buildable H S w root" and p: "p \<in> S" "map_of (data w) p = Some f"
  obtains w' where "index_file L root w p column = (Inr (), w')"
    "entry_current L w' root p column f" "buildable H S w' root" "data w' = data w"
    "\<And>q. q \<in> S \<Longrightarrow> q \<noteq> p \<Longrightarrow>
       get_dir w' root (calculate_file_hash q) = get_dir w root (calculate_file_hash q)"
    "col_sync L H S w root column \<Longrightarrow> col_sync L H S w' root column"
proof -
  from b p have f: "good_file f" "f \<in> H p" and free: "slot_free w root p"
    and inj: "inj_on calculate_file_hash S" by (auto simp: buildable_def)
  show ?thesis
  proof (rule index_file_success [OF L p(2) f(1) free, of column])
    fix ff w'
    assume ix: "index_file L root w p column = (Inr (), w')"
      and ff: "indexes_pairs L ff (file_pairs column f)"
      and d: "get_dir w' root (calculate_file_hash p) =
        Some \<lparr>meta = Some (file_metadata p f),
              fsts = AList.update (fst_name column) (Complete ff)
                       (AList.update (fst_name column) Partial
                         (fsts (old_dir w root (calculate_file_hash p))))\<rparr>"
      and o: "\<And>h'. h' \<noteq> calculate_file_hash p \<Longrightarrow> get_dir w' root h' = get_dir w root h'"
      and dat: "data w' = data w"
      and sl: "\<And>h'. map_of (tree_of w' root) h' = Some OtherEntry \<Longrightarrow> map_of (tree_of w root) h' = Some OtherEntry"
    have oth: "get_dir w' root (calculate_file_hash q) = get_dir w root (calculate_file_hash q)"
      if "q \<in> S" "q \<noteq> p" for q
      using that p(1) inj o by (auto simp: inj_on_def)
    have cur: "entry_current L w' root p column f"
      using d ff by (simp add: entry_current_def update_conv')
    have bu: "buildable H S w' root"
      using b sl by (auto simp: buildable_def slot_free_def dat)
    have sync: "col_sync L H S w' root column" if cs: "col_sync L H S w root column"
      unfolding col_sync_def
    proof (intro ballI allI impI)
      fix q d' x
      assume q: "q \<in> S" and a: "get_dir w' root (calculate_file_hash q) = Some d'
        \<and> map_of (fsts d') (fst_name column) = Some x"
      show "\<exists>g ff. g \<in> H q \<and> good_file g \<and> meta d' = Some (file_metadata q g)
           \<and> x = Complete ff \<and> indexes_pairs L ff (file_pairs column g)"
      proof (cases "q = p")
        case True
        with a d have "meta d' = Some (file_metadata q f)" "x = Complete ff"
          by (auto simp: update_conv')
        with True f ff show ?thesis by blast
      next
        case False
        with a q oth cs show ?thesis unfolding col_sync_def by metis
      qed
    qed
    show ?thesis by (rule that [OF ix cur bu dat oth sync])
  qed
qed

lemma no_fst_needs_indexing:
  assumes "\<not> (\<exists>d. get_dir w root (calculate_file_hash p) = Some d
    \<and> map_of (fsts d) (fst_name column) \<noteq> None)"
  shows "needs_indexing root w p column = Inr True"
  using assms
  by (cases "get_dir w root (calculate_file_hash p)")
     (auto simp: needs_indexing_def split: option.split)

text \<open>A file \<open>needs_indexing\<close> skips has a current entry, when the column is in sync.\<close>

lemma skipped_current:
  assumes sync: "col_sync L H S w root column" "stat_determines H"
    and b: "buildable H S w root" and p: "p \<in> S" "map_of (data w) p = Some f"
    and skip: "needs_indexing root w p column = Inr False"
  shows "entry_current L w root p column f"
proof -
  from b p have f: "good_file f" "f \<in> H p" and ok: "path_ok p" by (auto simp: buildable_def)
  have "\<exists>d. get_dir w root (calculate_file_hash p) = Some d
    \<and> map_of (fsts d) (fst_name column) \<noteq> None"
    by (rule ccontr, drule no_fst_needs_indexing) (simp add: skip)
  then obtain d x where d: "get_dir w root (calculate_file_hash p) = Some d"
    "map_of (fsts d) (fst_name column) = Some x"
    by blast
  from col_syncE [OF sync(1) p(1) d] obtain g ff where g: "g \<in> H p" "good_file g"
    "meta d = Some (file_metadata p g)" "x = Complete ff" "indexes_pairs L ff (file_pairs column g)" .
  from needs_indexing_stat [OF d(1) g(3) _ p(2) f(1) g(2) ok] d(2) skip
  have st: "secs_of f = secs_of g" "fsize f = fsize g" by auto
  have ct: "contents f = contents g"
    by (rule stat_determinesD [OF sync(2) f(2) g(1) st])
  show ?thesis
    unfolding entry_current_def file_pairs_cong [OF ct] file_metadata_cong [OF st ct]
    using d g by blast
qed

lemma needs_indexing_total:
  assumes "col_sync L H S w root column" "buildable H S w root" "p \<in> S"
  shows "\<exists>b. needs_indexing root w p column = Inr b"
proof (cases "\<exists>d. get_dir w root (calculate_file_hash p) = Some d
    \<and> map_of (fsts d) (fst_name column) \<noteq> None")
  case True
  then obtain d x where d: "get_dir w root (calculate_file_hash p) = Some d"
    "map_of (fsts d) (fst_name column) = Some x" by auto
  from col_syncE [OF assms(1,3) d] obtain g where g: "good_file g" "meta d = Some (file_metadata p g)"
    by metis
  from assms(2,3) obtain f where "map_of (data w) p = Some f" "good_file f" "path_ok p"
    by (auto simp: buildable_def)
  with needs_indexing_stat [OF d(1) g(2) _ _ _ g(1)] d(2) show ?thesis by auto
next
  case False
  then show ?thesis using no_fst_needs_indexing by blast
qed

section \<open>Building\<close>

lemma build_files_current:
  assumes L: "fst_ok L"
  shows "buildable H S w root \<Longrightarrow> set ps \<subseteq> S \<Longrightarrow>
    force \<or> stat_determines H \<and> col_sync L H S w root column \<Longrightarrow>
    \<exists>w'. build_files L root column force w ps = (Inr (), w') \<and> data w' = data w
      \<and> buildable H S w' root
      \<and> (\<forall>p \<in> set ps. \<forall>f. map_of (data w) p = Some f \<longrightarrow> entry_current L w' root p column f)
      \<and> (\<forall>p \<in> S - set ps. get_dir w' root (calculate_file_hash p) = get_dir w root (calculate_file_hash p))
      \<and> (\<forall>p \<in> S. \<forall>f. map_of (data w) p = Some f \<longrightarrow> entry_current L w root p column f
           \<longrightarrow> entry_current L w' root p column f)
      \<and> (col_sync L H S w root column \<longrightarrow> col_sync L H S w' root column)"
proof (induction ps arbitrary: w)
  case Nil
  then show ?case by auto
next
  case (Cons p ps)
  from Cons.prems have p: "p \<in> S" and ps: "set ps \<subseteq> S" by auto
  with Cons.prems(1) obtain f where f: "map_of (data w) p = Some f" "good_file f"
    unfolding buildable_def by blast
  show ?case
  proof (cases "force \<or> needs_indexing root w p column = Inr True")
    case True
    show ?thesis
    proof (rule index_file_current [OF L Cons.prems(1) p f(1), of column])
      fix w1
      assume w1: "index_file L root w p column = (Inr (), w1)"
        "entry_current L w1 root p column f" "buildable H S w1 root" "data w1 = data w"
        "\<And>q. q \<in> S \<Longrightarrow> q \<noteq> p \<Longrightarrow>
           get_dir w1 root (calculate_file_hash q) = get_dir w root (calculate_file_hash q)"
        "col_sync L H S w root column \<Longrightarrow> col_sync L H S w1 root column"
      have fs: "force \<or> stat_determines H \<and> col_sync L H S w1 root column"
        using Cons.prems(3) w1(6) by blast
      have keep: "entry_current L w1 root q column g"
        if "q \<in> S" "map_of (data w) q = Some g" "entry_current L w root q column g" for q g
      proof (cases "q = p")
        case True
        with that(2) f(1) w1(2) show ?thesis by simp
      next
        case False
        with that(3) w1(5) [OF that(1) False] show ?thesis by (simp add: entry_current_def)
      qed
      have step: "build_files L root column force w (p # ps) = build_files L root column force w1 ps"
        using True w1(1) by (cases force) simp_all
      from Cons.IH [OF w1(3) ps fs] obtain w' where w':
        "build_files L root column force w1 ps = (Inr (), w')" "data w' = data w1"
        "buildable H S w' root"
        "\<forall>q \<in> set ps. \<forall>g. map_of (data w1) q = Some g \<longrightarrow> entry_current L w' root q column g"
        "\<forall>q \<in> S - set ps. get_dir w' root (calculate_file_hash q) = get_dir w1 root (calculate_file_hash q)"
        "\<forall>q \<in> S. \<forall>g. map_of (data w1) q = Some g \<longrightarrow> entry_current L w1 root q column g
           \<longrightarrow> entry_current L w' root q column g"
        "col_sync L H S w1 root column \<longrightarrow> col_sync L H S w' root column" by blast
      have "\<forall>q \<in> set (p # ps). \<forall>g. map_of (data w) q = Some g \<longrightarrow> entry_current L w' root q column g"
        using w'(4,6) w1(2,4) p f(1) by auto
      moreover have "\<forall>q \<in> S - set (p # ps).
          get_dir w' root (calculate_file_hash q) = get_dir w root (calculate_file_hash q)"
        using w'(5) w1(5) by auto
      moreover have "\<forall>q \<in> S. \<forall>g. map_of (data w) q = Some g \<longrightarrow> entry_current L w root q column g
           \<longrightarrow> entry_current L w' root q column g"
        using w'(6) keep w1(4) by auto
      ultimately show ?thesis
        unfolding step using w' w1(4,6) by simp
    qed
  next
    case False
    with Cons.prems(3) have sync: "stat_determines H" "col_sync L H S w root column" by auto
    from needs_indexing_total [OF sync(2) Cons.prems(1) p] False
    have skip: "needs_indexing root w p column = Inr False" by fastforce
    have cur: "entry_current L w root p column f"
      by (rule skipped_current [OF sync(2,1) Cons.prems(1) p f(1) skip])
    have step: "build_files L root column force w (p # ps) = build_files L root column force w ps"
      using False skip by simp
    from Cons.IH [OF Cons.prems(1) ps Cons.prems(3)] obtain w' where w':
      "build_files L root column force w ps = (Inr (), w')" "data w' = data w"
      "buildable H S w' root"
      "\<forall>q \<in> set ps. \<forall>g. map_of (data w) q = Some g \<longrightarrow> entry_current L w' root q column g"
      "\<forall>q \<in> S - set ps. get_dir w' root (calculate_file_hash q) = get_dir w root (calculate_file_hash q)"
      "\<forall>q \<in> S. \<forall>g. map_of (data w) q = Some g \<longrightarrow> entry_current L w root q column g
         \<longrightarrow> entry_current L w' root q column g"
      "col_sync L H S w root column \<longrightarrow> col_sync L H S w' root column" by blast
    show ?thesis
      unfolding step using w' cur p f(1) by auto
  qed
qed

lemma walk_parquet_create_root [simp]: "walk_parquet (create_root root w) dir = walk_parquet w dir"
  by (simp add: walk_parquet_def)

lemma buildable_create_root [simp]: "buildable H S (create_root root w) root = buildable H S w root"
  by (simp add: buildable_def slot_free_def)

lemma col_sync_create_root [simp]:
  "col_sync L H S (create_root root w) root column = col_sync L H S w root column"
  by (simp add: col_sync_def)

lemma build_index_ext_current:
  assumes "fst_ok L" "buildable H (set (walk_parquet w dir)) w root"
    "force \<or> stat_determines H \<and> col_sync L H (set (walk_parquet w dir)) w root column"
  obtains w' where "build_index_ext L root w dir column force = (Inr (), w')" "data w' = data w"
    "\<And>p f. p \<in> set (walk_parquet w dir) \<Longrightarrow> map_of (data w) p = Some f \<Longrightarrow>
       entry_current L w' root p column f"
    "buildable H (set (walk_parquet w dir)) w' root"
    "col_sync L H (set (walk_parquet w dir)) w root column \<Longrightarrow>
     col_sync L H (set (walk_parquet w dir)) w' root column"
  using build_files_current [OF assms(1), of H "set (walk_parquet w dir)" "create_root root w" root
      "walk_parquet w dir" force column] assms(2,3)
  by (auto simp: build_index_ext_def)

end
