(* ===== verification/Read_Through.thy ===== *)
theory Read_Through
  imports Prelude
begin

text \<open>
  The interface of a read-through cache, which the engine's cache of resident FSTs and the
  provider's cache of Parquet footers share: a lookup that misses loads the value and stores it.

  The locale \<open>read_cache\<close> has the operations such a lookup calls and what they owe it; \<open>entries\<close>
  is the abstract content of a cache.  Its lemmas say what a lookup returns, what it leaves in the
  cache, and that a cache whose entries are what loading gives cannot be told from no cache.
\<close>

definition read_through ::
  "('c \<Rightarrow> 'k \<Rightarrow> 'm option \<times> 'c) \<Rightarrow> ('c \<Rightarrow> 'k \<Rightarrow> 'm \<Rightarrow> 'c) \<Rightarrow> ('k \<Rightarrow> 'e + 'm option) \<Rightarrow> 'c \<Rightarrow> 'k
   \<Rightarrow> ('e + 'm option) \<times> 'c" where
  "read_through get ins load c k =
     (case get c k of
        (Some m, c') \<Rightarrow> (Inr (Some m), c')
      | (None, c') \<Rightarrow>
          (case load k of
             Inl e \<Rightarrow> (Inl e, c')
           | Inr None \<Rightarrow> (Inr None, c')
           | Inr (Some m) \<Rightarrow> (Inr (Some m), ins c' k m)))"

locale read_cache =
  fixes entries :: "'c \<Rightarrow> 'k \<Rightarrow> 'm option"
    and get :: "'c \<Rightarrow> 'k \<Rightarrow> 'm option \<times> 'c"
    and ins :: "'c \<Rightarrow> 'k \<Rightarrow> 'm \<Rightarrow> 'c"
  assumes get_result: "fst (get c k) = entries c k"
    and get_keeps: "entries (snd (get c k)) = entries c"
    and ins_entries: "entries (ins c k m) = (entries c)(k \<mapsto> m)"
begin

lemma get_eq: "get c k = (entries c k, snd (get c k))"
  using get_result [of c k] by (metis prod.collapse)

lemma lookup_result:
  "fst (read_through get ins load c k) = (case entries c k of Some m \<Rightarrow> Inr (Some m) | None \<Rightarrow> load k)"
  unfolding read_through_def by (subst get_eq) (simp split: option.split sum.split)

lemma lookup_entries:
  "entries (snd (read_through get ins load c k)) =
     (case entries c k of
        Some m \<Rightarrow> entries c
      | None \<Rightarrow> (case load k of Inr (Some m) \<Rightarrow> (entries c)(k \<mapsto> m) | _ \<Rightarrow> entries c))"
  unfolding read_through_def
  by (subst get_eq) (simp add: get_keeps ins_entries split: option.split sum.split)

text \<open>An entry is served as it is and stays.\<close>

lemma hit: "entries c k = Some m \<Longrightarrow> fst (read_through get ins load c k) = Inr (Some m)"
  by (simp add: lookup_result)

lemma entry_stays: "entries c k = Some m \<Longrightarrow> entries (snd (read_through get ins load c k')) k = Some m"
  by (auto simp: lookup_entries split: option.split sum.split)

text \<open>What a lookup returns is in the cache afterwards, and nothing else is added.\<close>

lemma stored:
  "fst (read_through get ins load c k) = Inr (Some m) \<Longrightarrow>
   entries (snd (read_through get ins load c k)) k = Some m"
  by (auto simp: lookup_entries lookup_result split: option.splits sum.splits)

lemma lookup_dom:
  "dom (entries (snd (read_through get ins load c k))) =
     dom (entries c) \<union> (case fst (read_through get ins load c k) of Inr (Some m) \<Rightarrow> {k} | _ \<Rightarrow> {})"
  by (auto simp: lookup_entries lookup_result split: option.splits sum.splits)

text \<open>A cache that agrees with loading is transparent, and stays in agreement.\<close>

lemma transparent:
  assumes "\<forall>k m. entries c k = Some m \<longrightarrow> load k = Inr (Some m)"
  shows "fst (read_through get ins load c k) = load k"
    "\<forall>k' m. entries (snd (read_through get ins load c k)) k' = Some m \<longrightarrow> load k' = Inr (Some m)"
  using assms by (auto simp: lookup_result lookup_entries split: option.splits sum.splits if_splits)

end

end
