(* ===== verification/Query_Engine.thy ===== *)
theory Query_Engine
  imports Indexer Read_Through
begin

text \<open>
  The query engine (\<open>src/query.rs\<close>): the maps \<open>new\<close> builds from the index directory, the cache of
  resident FSTs, and the searches over all indexed files.  An operation that fills the cache
  returns the engine updated.

  A \<open>HashMap\<close> is an association list; its order stands for the unspecified iteration order.  The
  searches visit the files in that order and stop at the first error; that the code's parallel
  iterators give the same results is shown in \<open>Parallel_Properties\<close>.
\<close>

section \<open>State\<close>

record file_matches =
  file_path :: path
  row_groups :: "nat list"

record 's engine =
  index_dir :: path
  file_map :: "(string \<times> path) list"
  row_group_counts :: "(string \<times> nat) list"
  fst_cache :: "string \<times> column \<Rightarrow> 's option"

definition fallback_path :: "string \<Rightarrow> path" where
  "fallback_path file_hash = ''file-'' @ file_hash"

text \<open>The lines of a metadata file that exists and is UTF-8; no lines otherwise.\<close>

definition metadata_lines :: "'f idx_dir \<Rightarrow> string list" where
  "metadata_lines d =
     (case meta d of
        None \<Rightarrow> []
      | Some content \<Rightarrow> if utf8_valid content then lines_of content else [])"

fun build_file_map ::
  "'f index_tree \<Rightarrow> (string \<times> path) list \<Rightarrow> (string \<times> nat) list
   \<Rightarrow> (string \<times> path) list \<times> (string \<times> nat) list" where
  "build_file_map [] m counts = (m, counts)"
| "build_file_map ((h, OtherEntry) # es) m counts = build_file_map es m counts"
| "build_file_map ((h, IdxDir d) # es) m counts =
     (case metadata_lines d of
        [] \<Rightarrow> build_file_map es (AList.update h (fallback_path h) m) counts
      | original_path # rest \<Rightarrow>
          build_file_map es (AList.update h original_path m)
            (if length rest \<le> 2 then counts
             else (case parse_usize (rest ! 2) of
                     Inl _ \<Rightarrow> counts
                   | Inr count \<Rightarrow> AList.update h count counts)))"

definition engine_new :: "'f world \<Rightarrow> path \<Rightarrow> 's engine" where
  "engine_new w dir =
     (let (m, counts) = build_file_map (tree_of w dir) [] []
      in \<lparr>index_dir = dir, file_map = m, row_group_counts = counts, fst_cache = (\<lambda>_. None)\<rparr>)"

definition num_row_groups :: "'s engine \<Rightarrow> string \<Rightarrow> nat option" where
  "num_row_groups e file_hash = map_of (row_group_counts e) file_hash"

section \<open>The cache of resident FSTs\<close>

text \<open>Opening the FST of a column: a missing file is no index, anything else unreadable an error.\<close>

definition load_set ::
  "('b, 'f, 's) fst_lib \<Rightarrow> 'f world \<Rightarrow> path \<Rightarrow> string \<Rightarrow> column \<Rightarrow> pdq_error + 's option" where
  "load_set L w dir file_hash column =
     (case map_of (tree_of w dir) file_hash of
        None \<Rightarrow> Inr None
      | Some OtherEntry \<Rightarrow> Inl IoError
      | Some (IdxDir d) \<Rightarrow>
          (case map_of (fsts d) (fst_name column) of
             None \<Rightarrow> Inr None
           | Some Partial \<Rightarrow> Inl FstError
           | Some (Complete ff) \<Rightarrow>
               (case set_open L ff of Inl er \<Rightarrow> Inl er | Inr s \<Rightarrow> Inr (Some s))))"

definition get_or_load_set ::
  "('b, 'f, 's) fst_lib \<Rightarrow> 'f world \<Rightarrow> 's engine \<Rightarrow> string \<Rightarrow> column
   \<Rightarrow> (pdq_error + 's option) \<times> 's engine" where
  "get_or_load_set L w e file_hash column =
     (let key = (file_hash, column) in
      case fst_cache e key of
        Some s \<Rightarrow> (Inr (Some s), e)
      | None \<Rightarrow>
          (case load_set L w (index_dir e) file_hash column of
             Inl er \<Rightarrow> (Inl er, e)
           | Inr None \<Rightarrow> (Inr None, e)
           | Inr (Some s) \<Rightarrow> (Inr (Some s), e\<lparr>fst_cache := (fst_cache e)(key \<mapsto> s)\<rparr>)))"

section \<open>Searching all files\<close>

fun search_files ::
  "('b, 'f, 's) fst_lib \<Rightarrow> 'f world \<Rightarrow> 's engine \<Rightarrow> column \<Rightarrow> ('s \<Rightarrow> pdq_error + nat list)
   \<Rightarrow> string list \<Rightarrow> (pdq_error + (string \<times> nat list) list) \<times> 's engine" where
  "search_files L w e column search [] = (Inr [], e)"
| "search_files L w e column search (h # hs) =
     (case get_or_load_set L w e h column of
        (Inl er, e') \<Rightarrow> (Inl er, e')
      | (Inr None, e') \<Rightarrow> search_files L w e' column search hs
      | (Inr (Some s), e') \<Rightarrow>
          (case search s of
             Inl er \<Rightarrow> (Inl er, e')
           | Inr rgs \<Rightarrow>
               (case search_files L w e' column search hs of
                  (Inl er, e'') \<Rightarrow> (Inl er, e'')
                | (Inr ms, e'') \<Rightarrow> (Inr (if rgs = [] then ms else (h, rgs) # ms), e''))))"

definition resolve_match :: "'s engine \<Rightarrow> string \<times> nat list \<Rightarrow> file_matches" where
  "resolve_match e m =
     \<lparr>file_path = (case map_of (file_map e) (fst m) of
                    None \<Rightarrow> fallback_path (fst m) | Some p \<Rightarrow> p),
      row_groups = snd m\<rparr>"

definition search_all ::
  "('b, 'f, 's) fst_lib \<Rightarrow> 'f world \<Rightarrow> 's engine \<Rightarrow> column \<Rightarrow> ('s \<Rightarrow> pdq_error + nat list)
   \<Rightarrow> (pdq_error + file_matches list) \<times> 's engine" where
  "search_all L w e column search =
     (case search_files L w e column search (map fst (file_map e)) of
        (Inl er, e') \<Rightarrow> (Inl er, e')
      | (Inr ms, e') \<Rightarrow> (Inr (map (resolve_match e) ms), e'))"

definition exact_search where
  "exact_search L w e column term = search_all L w e column (search_set L term)"

definition prefix_search where
  "prefix_search L w e column p = search_all L w e column (prefix_search_set L p)"

definition range_search where
  "range_search L w e column start end = search_all L w e column (range_search_set L start end)"

text \<open>The watchlist search counts the pairs of a file and a term that match.\<close>

fun multi_files ::
  "('b, 'f, 's) fst_lib \<Rightarrow> 'f world \<Rightarrow> 's engine \<Rightarrow> column \<Rightarrow> string list \<Rightarrow> string list
   \<Rightarrow> (pdq_error + nat) \<times> 's engine" where
  "multi_files L w e column terms [] = (Inr 0, e)"
| "multi_files L w e column terms (h # hs) =
     (case get_or_load_set L w e h column of
        (Inl er, e') \<Rightarrow> (Inl er, e')
      | (Inr r, e') \<Rightarrow>
          (let hits = (case r of
                         None \<Rightarrow> 0
                       | Some s \<Rightarrow> length (filter (set_has_term L s) terms))
           in case multi_files L w e' column terms hs of
                (Inl er, e'') \<Rightarrow> (Inl er, e'')
              | (Inr n, e'') \<Rightarrow> (Inr (hits + n), e'')))"

definition exact_search_multi ::
  "('b, 'f, 's) fst_lib \<Rightarrow> 'f world \<Rightarrow> 's engine \<Rightarrow> column \<Rightarrow> string list
   \<Rightarrow> (pdq_error + nat) \<times> 's engine" where
  "exact_search_multi L w e column terms =
     multi_files L w e column terms (map fst (file_map e))"

section \<open>Listings\<close>

definition list_indexed_files :: "'f world \<Rightarrow> 's engine \<Rightarrow> string list" where
  "list_indexed_files w e =
     map fst (filter (\<lambda>(h, en). en \<noteq> OtherEntry) (tree_of w (index_dir e)))"

definition get_available_columns :: "'f world \<Rightarrow> 's engine \<Rightarrow> string \<Rightarrow> pdq_error + column list" where
  "get_available_columns w e file_hash =
     (case map_of (tree_of w (index_dir e)) file_hash of
        None \<Rightarrow> Inr []
      | Some OtherEntry \<Rightarrow> Inl IoError
      | Some (IdxDir d) \<Rightarrow>
          Inr (sort (map name_stem
            (filter (\<lambda>n. name_extension n = Some ''fst'')
              ((if meta d = None then [] else [''metadata.txt'']) @ map fst (fsts d))))))"

text \<open>Files below a directory whose hash is asked for; the last file of a hash wins.\<close>

definition resolve_file_paths :: "'f world \<Rightarrow> string list \<Rightarrow> path \<Rightarrow> (string \<times> path) list" where
  "resolve_file_paths w file_hashes data_dir =
     fold (\<lambda>p m. if calculate_file_hash p \<in> set file_hashes
                 then AList.update (calculate_file_hash p) p m else m)
       (walk_parquet w data_dir) []"

section \<open>The cache is transparent\<close>

definition coherent :: "('b, 'f, 's) fst_lib \<Rightarrow> 'f world \<Rightarrow> 's engine \<Rightarrow> bool" where
  "coherent L w e \<longleftrightarrow>
     (\<forall>h column s. fst_cache e (h, column) = Some s \<longrightarrow>
        load_set L w (index_dir e) h column = Inr (Some s))"

lemma coherent_new [simp]: "coherent L w (engine_new w' dir)"
  by (simp add: coherent_def engine_new_def split: prod.split)

text \<open>The fields of an engine that a lookup leaves alone.\<close>

definition same_index :: "'s engine \<Rightarrow> 's engine \<Rightarrow> bool" where
  "same_index e e' \<longleftrightarrow> index_dir e' = index_dir e \<and> file_map e' = file_map e
     \<and> row_group_counts e' = row_group_counts e"

lemma same_index_refl [simp]: "same_index e e"
  by (simp add: same_index_def)

lemma same_index_trans: "same_index e e' \<Longrightarrow> same_index e' e'' \<Longrightarrow> same_index e e''"
  by (simp add: same_index_def)

text \<open>The resident FSTs are a read-through cache of \<open>load_set\<close>.\<close>

interpretation resident: read_cache fst_cache "\<lambda>e key. (fst_cache e key, e)"
    "\<lambda>e key s. e\<lparr>fst_cache := (fst_cache e)(key \<mapsto> s)\<rparr>"
  by unfold_locales simp_all

lemma get_or_load_set_read_through:
  "get_or_load_set L w e h column =
     read_through (\<lambda>e key. (fst_cache e key, e)) (\<lambda>e key s. e\<lparr>fst_cache := (fst_cache e)(key \<mapsto> s)\<rparr>)
       (\<lambda>(h, column). load_set L w (index_dir e) h column) e (h, column)"
  by (simp add: get_or_load_set_def read_through_def Let_def split: option.split sum.split)

lemma get_or_load_set_same_index: "same_index e (snd (get_or_load_set L w e h column))"
  by (auto simp: get_or_load_set_def Let_def same_index_def split: option.split sum.split)

lemma get_or_load_set_coherent:
  assumes "coherent L w e"
  shows "\<exists>e'. get_or_load_set L w e h column = (load_set L w (index_dir e) h column, e')
    \<and> coherent L w e' \<and> same_index e e'"
proof -
  let ?load = "\<lambda>(h, column). load_set L w (index_dir e) h column"
  obtain r e' where g: "get_or_load_set L w e h column = (r, e')" by fastforce
  have "\<forall>key s. fst_cache e key = Some s \<longrightarrow> ?load key = Inr (Some s)"
    using assms by (auto simp: coherent_def)
  from resident.transparent [OF this, of "(h, column)", folded get_or_load_set_read_through]
  have "r = ?load (h, column)" "\<forall>key s. fst_cache e' key = Some s \<longrightarrow> ?load key = Inr (Some s)"
    unfolding g by simp_all
  moreover have "same_index e e'" using get_or_load_set_same_index [of e L w h column] g by simp
  ultimately show ?thesis using g by (auto simp: coherent_def same_index_def)
qed

text \<open>Searching without a cache.\<close>

fun search_files_pure where
  "search_files_pure L w dir column search [] = Inr []"
| "search_files_pure L w dir column search (h # hs) =
     (case load_set L w dir h column of
        Inl er \<Rightarrow> Inl er
      | Inr None \<Rightarrow> search_files_pure L w dir column search hs
      | Inr (Some s) \<Rightarrow>
          (case search s of
             Inl er \<Rightarrow> Inl er
           | Inr rgs \<Rightarrow>
               (case search_files_pure L w dir column search hs of
                  Inl er \<Rightarrow> Inl er
                | Inr ms \<Rightarrow> Inr (if rgs = [] then ms else (h, rgs) # ms))))"

lemma search_files_coherent:
  "coherent L w e \<Longrightarrow>
   \<exists>e'. search_files L w e column search hs =
          (search_files_pure L w (index_dir e) column search hs, e')
      \<and> coherent L w e' \<and> same_index e e'"
proof (induction hs arbitrary: e)
  case (Cons h hs)
  from get_or_load_set_coherent [OF Cons.prems] obtain e1
    where e1: "get_or_load_set L w e h column = (load_set L w (index_dir e) h column, e1)"
      "coherent L w e1" "same_index e e1" by blast
  from Cons.IH [OF e1(2)] obtain e2
    where e2: "search_files L w e1 column search hs =
        (search_files_pure L w (index_dir e1) column search hs, e2)"
      "coherent L w e2" "same_index e1 e2" by blast
  from e1(3) have "index_dir e1 = index_dir e" by (simp add: same_index_def)
  with e1 e2 same_index_trans [OF e1(3) e2(3)] show ?case
    by (auto split: sum.split option.split)
qed simp

lemma search_all_coherent:
  assumes "coherent L w e"
  shows "\<exists>e'. search_all L w e column search =
      ((case search_files_pure L w (index_dir e) column search (map fst (file_map e)) of
          Inl er \<Rightarrow> Inl er | Inr ms \<Rightarrow> Inr (map (resolve_match e) ms)), e')
      \<and> coherent L w e' \<and> same_index e e'"
  using search_files_coherent [OF assms, of column search "map fst (file_map e)"]
  by (auto simp: search_all_def split: sum.split)

section \<open>Searching files that are indexed\<close>

text \<open>
  \<open>view h\<close> is what the FST of the column says for the file of hash \<open>h\<close>: \<open>None\<close> when there is none,
  else the pairs it indexes.
\<close>

definition col_view ::
  "('b, 'f, 's) fst_lib \<Rightarrow> 'f world \<Rightarrow> path \<Rightarrow> column \<Rightarrow> string set
   \<Rightarrow> (string \<Rightarrow> (string \<times> nat) set option) \<Rightarrow> bool" where
  "col_view L w dir column hs view \<longleftrightarrow>
     (\<forall>h \<in> hs. case view h of
        None \<Rightarrow> load_set L w dir h column = Inr None
      | Some P \<Rightarrow> \<exists>s. load_set L w dir h column = Inr (Some s) \<and> set_indexes L s P)"

text \<open>The matches of a notion of hit over files in the given order.\<close>

definition view_matches ::
  "(string \<Rightarrow> bool) \<Rightarrow> (string \<Rightarrow> (string \<times> nat) set option) \<Rightarrow> string list \<Rightarrow> (string \<times> nat list) list" where
  "view_matches hit view hs =
     concat (map (\<lambda>h. case view h of
                        None \<Rightarrow> []
                      | Some P \<Rightarrow> let rgs = hit_row_groups hit P in if rgs = [] then [] else [(h, rgs)]) hs)"

lemma view_matches_iff:
  "(h, rgs) \<in> set (view_matches hit view hs) \<longleftrightarrow>
     h \<in> set hs \<and> rgs \<noteq> [] \<and> (\<exists>P. view h = Some P \<and> rgs = hit_row_groups hit P)"
proof -
  have "(h, rgs) \<in> set (case view x of None \<Rightarrow> [] | Some P \<Rightarrow>
          let rgs = hit_row_groups hit P in if rgs = [] then [] else [(x, rgs)]) \<longleftrightarrow>
      h = x \<and> rgs \<noteq> [] \<and> (\<exists>P. view x = Some P \<and> rgs = hit_row_groups hit P)" for x
    by (cases "view x") (auto simp: Let_def)
  then show ?thesis by (auto simp: view_matches_def)
qed

context set_search
begin

lemma search_files_hits:
  assumes "ok q"
  shows "col_view L w dir column (set hs) view \<Longrightarrow>
    search_files_pure L w dir column (search L q) hs = Inr (view_matches (hit q) view hs)"
proof (induction hs)
  case (Cons h hs)
  then have IH: "search_files_pure L w dir column (search L q) hs = Inr (view_matches (hit q) view hs)"
    by (simp add: col_view_def)
  show ?case
  proof (cases "view h")
    case None
    with Cons.prems IH show ?thesis by (auto simp: col_view_def view_matches_def)
  next
    case (Some P)
    with Cons.prems obtain s where "load_set L w dir h column = Inr (Some s)" "set_indexes L s P"
      by (auto simp: col_view_def)
    with Some IH search_hits [OF assms] show ?thesis
      by (simp add: view_matches_def Let_def)
  qed
qed (simp add: view_matches_def)

lemma search_all_hits:
  assumes "ok q" "coherent L w e" "col_view L w (index_dir e) column (set (map fst (file_map e))) view"
  shows "\<exists>e'. search_all L w e column (search L q) =
      (Inr (map (resolve_match e) (view_matches (hit q) view (map fst (file_map e)))), e')
      \<and> coherent L w e' \<and> same_index e e'"
  using search_all_coherent [OF assms(2), of column "search L q"]
    search_files_hits [OF assms(1,3)] by simp

end

section \<open>The file map\<close>

definition dir_path :: "string \<Rightarrow> 'f idx_dir \<Rightarrow> path" where
  "dir_path h d = (case metadata_lines d of [] \<Rightarrow> fallback_path h | p # _ \<Rightarrow> p)"

definition dir_count :: "'f idx_dir \<Rightarrow> nat option" where
  "dir_count d =
     (case metadata_lines d of
        [] \<Rightarrow> None
      | _ # rest \<Rightarrow>
          if length rest \<le> 2 then None
          else (case parse_usize (rest ! 2) of Inl _ \<Rightarrow> None | Inr n \<Rightarrow> Some n))"

definition add_count :: "string \<Rightarrow> 'f idx_dir \<Rightarrow> (string \<times> nat) list \<Rightarrow> (string \<times> nat) list" where
  "add_count h d counts = (case dir_count d of None \<Rightarrow> counts | Some n \<Rightarrow> AList.update h n counts)"

lemma build_file_map_step:
  "build_file_map ((h, IdxDir d) # es) m counts =
     build_file_map es (AList.update h (dir_path h d) m) (add_count h d counts)"
  by (auto simp: dir_path_def dir_count_def add_count_def split: list.split sum.split)

lemma map_of_add_count:
  "map_of (add_count h d counts) h' =
     (if h' = h \<and> dir_count d \<noteq> None then dir_count d else map_of counts h')"
  by (simp add: add_count_def update_conv' split: option.split)

lemma build_file_map_correct:
  assumes "distinct (map fst es)"
  shows "map_of (fst (build_file_map es m counts)) h =
      (case map_of es h of Some (IdxDir d) \<Rightarrow> Some (dir_path h d) | _ \<Rightarrow> map_of m h)
    \<and> map_of (snd (build_file_map es m counts)) h =
      (case map_of es h of
         Some (IdxDir d) \<Rightarrow> (case dir_count d of Some n \<Rightarrow> Some n | None \<Rightarrow> map_of counts h)
       | _ \<Rightarrow> map_of counts h)"
  using assms
proof (induction es arbitrary: m counts)
  case Nil
  show ?case by simp
next
  case (Cons a es)
  obtain h' en where a: "a = (h', en)" by (cases a)
  from Cons.prems a have d: "distinct (map fst es)" and n: "map_of es h' = None"
    by (auto simp: map_of_eq_None_iff)
  show ?case
  proof (cases en)
    case OtherEntry
    with a n Cons.IH [OF d, of m counts] show ?thesis by auto
  next
    case (IdxDir dd)
    show ?thesis
      unfolding a IdxDir build_file_map_step
      using Cons.IH [OF d, of "AList.update h' (dir_path h' dd) m" "add_count h' dd counts"] n
      by (cases "h = h'") (auto simp: update_conv' map_of_add_count split: option.split entry.split)
  qed
qed

lemma map_of_map_fst: "set (map fst m) = {h. map_of m h \<noteq> None}"
  by (simp add: map_of_eq_None_iff)

lemma engine_new_simps [simp]:
  "index_dir (engine_new w dir) = dir"
  by (simp add: engine_new_def split: prod.split)

lemma file_map_new:
  assumes "distinct (map fst (tree_of w dir))"
  shows "map_of (file_map (engine_new w dir)) h =
      (case get_dir w dir h of Some d \<Rightarrow> Some (dir_path h d) | None \<Rightarrow> None)"
    and "num_row_groups (engine_new w dir) h =
      (case get_dir w dir h of Some d \<Rightarrow> dir_count d | None \<Rightarrow> None)"
  using build_file_map_correct [OF assms, of "[]" "[]" h]
  by (auto simp: engine_new_def get_dir_def num_row_groups_def split: prod.split option.split entry.split)

lemma file_hashes_new:
  assumes "distinct (map fst (tree_of w dir))"
  shows "set (map fst (file_map (engine_new w dir))) = {h. get_dir w dir h \<noteq> None}"
  unfolding map_of_map_fst file_map_new(1) [OF assms] by (auto split: option.split)

section \<open>The watchlist search\<close>

lemma multi_files_hits:
  assumes "coherent L w e" "col_view L w (index_dir e) column (set hs) view"
  shows "\<exists>e'. multi_files L w e column terms hs =
      (Inr (\<Sum>h \<leftarrow> hs. length (filter (\<lambda>t. case view h of
                None \<Rightarrow> False | Some P \<Rightarrow> \<exists>v n. (v, n) \<in> P \<and> exact_hit t v) terms)), e')
      \<and> coherent L w e' \<and> same_index e e'"
  using assms
proof (induction hs arbitrary: e)
  case (Cons h hs)
  from get_or_load_set_coherent [OF Cons.prems(1)] obtain e1
    where e1: "get_or_load_set L w e h column = (load_set L w (index_dir e) h column, e1)"
      "coherent L w e1" "same_index e e1" by blast
  from e1(3) have "index_dir e1 = index_dir e" by (simp add: same_index_def)
  with Cons.IH [OF e1(2)] Cons.prems(2) obtain e2 where e2: "multi_files L w e1 column terms hs =
      (Inr (\<Sum>h \<leftarrow> hs. length (filter (\<lambda>t. case view h of
                None \<Rightarrow> False | Some P \<Rightarrow> \<exists>v n. (v, n) \<in> P \<and> exact_hit t v) terms)), e2)"
    "coherent L w e2" "same_index e1 e2" by (auto simp: col_view_def)
  show ?case
  proof (cases "view h")
    case None
    with Cons.prems(2) have "load_set L w (index_dir e) h column = Inr None" by (auto simp: col_view_def)
    with None e1 e2 same_index_trans [OF e1(3) e2(3)] show ?thesis by simp
  next
    case (Some P)
    with Cons.prems(2) obtain s where "load_set L w (index_dir e) h column = Inr (Some s)"
      and P: "set_indexes L s P" by (auto simp: col_view_def)
    moreover have "set_has_term L s = (\<lambda>t. \<exists>v n. (v, n) \<in> P \<and> exact_hit t v)"
      using set_has_term_iff [OF P] by (simp add: fun_eq_iff)
    ultimately show ?thesis
      using Some e1 e2 same_index_trans [OF e1(3) e2(3)] by simp
  qed
qed simp

lemma hit_row_groups_empty:
  assumes "\<forall>(v, n) \<in> P. n < usize_bound"
  shows "hit_row_groups hit P = [] \<longleftrightarrow> \<not> (\<exists>v n. (v, n) \<in> P \<and> hit v)"
proof -
  have "{n. \<exists>v. (v, n) \<in> P \<and> hit v} \<subseteq> {..<usize_bound}" using assms by auto
  then have "finite {n. \<exists>v. (v, n) \<in> P \<and> hit v}" by (rule finite_subset) simp
  then show ?thesis by (auto simp: hit_row_groups_def)
qed

lemma set_hit_row_groups:
  assumes "\<forall>(v, n) \<in> P. n < usize_bound"
  shows "set (hit_row_groups hit P) = {n. \<exists>v. (v, n) \<in> P \<and> hit v}"
proof -
  have "{n. \<exists>v. (v, n) \<in> P \<and> hit v} \<subseteq> {..<usize_bound}" using assms by auto
  then have "finite {n. \<exists>v. (v, n) \<in> P \<and> hit v}" by (rule finite_subset) simp
  then show ?thesis by (simp add: hit_row_groups_def)
qed

lemma length_view_matches:
  assumes "\<forall>h \<in> set hs. \<forall>P. view h = Some P \<longrightarrow> (\<forall>(v, n) \<in> P. n < usize_bound)"
  shows "length (view_matches hit view hs) =
    length (filter (\<lambda>h. case view h of None \<Rightarrow> False | Some P \<Rightarrow> \<exists>v n. (v, n) \<in> P \<and> hit v) hs)"
  using assms
proof (induction hs)
  case (Cons h hs)
  then have IH: "length (view_matches hit view hs) =
    length (filter (\<lambda>h. case view h of None \<Rightarrow> False | Some P \<Rightarrow> \<exists>v n. (v, n) \<in> P \<and> hit v) hs)" by simp
  show ?case
  proof (cases "view h")
    case None
    with IH show ?thesis by (simp add: view_matches_def)
  next
    case (Some P)
    with Cons.prems have "\<forall>(v, n) \<in> P. n < usize_bound" by simp
    from hit_row_groups_empty [OF this, of hit] Some IH show ?thesis
      by (auto simp: view_matches_def Let_def)
  qed
qed (simp add: view_matches_def)

lemma double_count:
  "(\<Sum>t \<leftarrow> ts. length (filter (\<lambda>h. Q t h) hs)) = (\<Sum>h \<leftarrow> hs. length (filter (\<lambda>t. Q t h) ts))"
proof (induction hs)
  case (Cons h hs)
  have "(\<Sum>t \<leftarrow> ts. length (filter (Q t) (h # hs))) =
      (\<Sum>t \<leftarrow> ts. (if Q t h then 1 else 0) + length (filter (Q t) hs))"
    by (rule arg_cong [where f = sum_list]) auto
  also have "\<dots> = length (filter (\<lambda>t. Q t h) ts) + (\<Sum>t \<leftarrow> ts. length (filter (Q t) hs))"
    by (induction ts) auto
  finally show ?case using Cons.IH by simp
qed (induction ts; simp)

end
