(* ===== verification/Index_Query.thy ===== *)
theory Index_Query
  imports Index_Currency Query_Engine
begin

text \<open>
  Indexing and querying together: on an index root whose entries all belong to the walked files
  (an empty one, for instance), a build leaves every entry current, and the engine opened on the
  result finds, for each search of the contract \<open>set_search\<close>, exactly the files and row groups
  that hold a hit.
\<close>

section \<open>Roots that hold only entries of given files\<close>

definition tree_within :: "'f world \<Rightarrow> path \<Rightarrow> path set \<Rightarrow> bool" where
  "tree_within w root S \<longleftrightarrow>
     distinct (map fst (tree_of w root)) \<and> set (map fst (tree_of w root)) \<subseteq> calculate_file_hash ` S"

lemma tree_within_put_dir:
  assumes "tree_within w root S" "p \<in> S"
  shows "tree_within (put_dir root (calculate_file_hash p) d w) root S"
  using assms distinct_put_dir [of w root "calculate_file_hash p" d]
    keys_put_dir [of root "calculate_file_hash p" d w]
  unfolding tree_within_def by simp

lemma tree_within_write:
  assumes "tree_within w root S" "p \<in> S"
  shows "tree_within (write_meta root (calculate_file_hash p) c w) root S"
    "tree_within (write_fst_file root (calculate_file_hash p) n ff w) root S"
  using assms tree_within_put_dir
  by (auto simp: write_meta_def write_fst_file_def split: option.split)

lemma index_file_tree_within:
  assumes "tree_within w root S" "p \<in> S"
  shows "tree_within (snd (index_file L root w p column)) root S"
proof -
  have "tree_within w1 root S" if "create_index_dir root (calculate_file_hash p) w = Inr w1" for w1
    using that assms tree_within_put_dir [OF assms]
    by (auto simp: create_index_dir_def split: option.splits entry.splits)
  with assms show ?thesis
    by (auto simp: index_file_def Let_def tree_within_write split: option.split sum.split)
qed

lemma build_files_tree_within:
  "tree_within w root S \<Longrightarrow> set ps \<subseteq> S \<Longrightarrow>
   tree_within (snd (build_files L root column force w ps)) root S"
proof (induction ps arbitrary: w)
  case (Cons p ps)
  then have "tree_within (snd (index_file L root w p column)) root S"
    by (intro index_file_tree_within) auto
  with Cons show ?case
    by (cases "index_file L root w p column") (auto split: sum.split bool.split)
qed simp

section \<open>What a current index shows\<close>

definition all_current ::
  "('b, 'f, 's) fst_lib \<Rightarrow> (path \<Rightarrow> pfile set) \<Rightarrow> path set \<Rightarrow> 'f world \<Rightarrow> path \<Rightarrow> column \<Rightarrow> bool" where
  "all_current L H S w root column \<longleftrightarrow>
     buildable H S w root \<and> tree_within w root S
     \<and> (\<forall>p \<in> S. \<forall>f. map_of (data w) p = Some f \<longrightarrow> entry_current L w root p column f)"

text \<open>The metadata of a current entry gives back the path and the number of row groups.\<close>

lemma dir_of_metadata:
  assumes "meta d = Some (file_metadata p f)" "path_ok p" "good_file f"
  shows "dir_path h d = p" "dir_count d = Some (num_row_groups_of f)"
  using assms good_file_bounds [OF assms(3)]
  by (simp_all add: dir_path_def dir_count_def metadata_lines_def file_metadata_def
      utf8_valid_metadata lines_of_metadata parse_usize_show)

lemma current_entry:
  assumes "all_current L H S w root column" "p \<in> S"
  obtains f d ff where "map_of (data w) p = Some f" "good_file f" "path_ok p"
    "get_dir w root (calculate_file_hash p) = Some d" "meta d = Some (file_metadata p f)"
    "map_of (fsts d) (fst_name column) = Some (Complete ff)"
    "indexes_pairs L ff (file_pairs column f)"
proof -
  from assms obtain f where "map_of (data w) p = Some f" "good_file f" "path_ok p"
    "entry_current L w root p column f"
    unfolding all_current_def buildable_def by blast
  with that show ?thesis unfolding entry_current_def by blast
qed

definition hash_view ::
  "'f world \<Rightarrow> path set \<Rightarrow> column \<Rightarrow> string \<Rightarrow> (string \<times> nat) set option" where
  "hash_view w S column h =
     (if h \<in> calculate_file_hash ` S
      then map_option (file_pairs column) (map_of (data w) (inv_into S calculate_file_hash h))
      else None)"

lemma hash_view_path:
  assumes "inj_on calculate_file_hash S" "p \<in> S" "map_of (data w) p = Some f"
  shows "hash_view w S column (calculate_file_hash p) = Some (file_pairs column f)"
  using assms by (simp add: hash_view_def)

lemma get_dir_map_of: "get_dir w root h = Some d \<Longrightarrow> map_of (tree_of w root) h = Some (IdxDir d)"
  by (auto simp: get_dir_def split: option.splits entry.splits)

lemma current_file_map:
  assumes cur: "all_current L H S w root column"
  shows "set (map fst (file_map (engine_new w root))) = calculate_file_hash ` S"
    and "p \<in> S \<Longrightarrow> map_of (file_map (engine_new w root)) (calculate_file_hash p) = Some p"
    and "col_view L w root column (calculate_file_hash ` S) (hash_view w S column)"
    and "p \<in> S \<Longrightarrow> map_of (data w) p = Some f \<Longrightarrow>
      num_row_groups (engine_new w root) (calculate_file_hash p) = Some (num_row_groups_of f)"
proof -
  have tw: "tree_within w root S" and inj: "inj_on calculate_file_hash S"
    using cur by (auto simp: all_current_def buildable_def)
  then have dist: "distinct (map fst (tree_of w root))" by (simp add: tree_within_def)
  have "h \<in> calculate_file_hash ` S" if "get_dir w root h = Some d" for h d
    using tw get_dir_map_of [OF that] by (force simp: tree_within_def dest: map_of_SomeD)
  moreover have "\<exists>d. get_dir w root (calculate_file_hash p) = Some d" if "p \<in> S" for p
    using current_entry [OF cur that] by metis
  ultimately show "set (map fst (file_map (engine_new w root))) = calculate_file_hash ` S"
    unfolding file_hashes_new [OF dist] by blast
  show "map_of (file_map (engine_new w root)) (calculate_file_hash p) = Some p" if p: "p \<in> S"
  proof -
    from current_entry [OF cur p] obtain f d where "good_file f" "path_ok p"
      "get_dir w root (calculate_file_hash p) = Some d" "meta d = Some (file_metadata p f)" by metis
    with dir_of_metadata(1) show ?thesis by (simp add: file_map_new(1) [OF dist])
  qed
  show "num_row_groups (engine_new w root) (calculate_file_hash p) = Some (num_row_groups_of f)"
    if p: "p \<in> S" and f: "map_of (data w) p = Some f"
  proof -
    from current_entry [OF cur p] f obtain d where "good_file f" "path_ok p"
      "get_dir w root (calculate_file_hash p) = Some d" "meta d = Some (file_metadata p f)"
      by (metis option.inject)
    with dir_of_metadata(2) show ?thesis by (simp add: file_map_new(2) [OF dist])
  qed
  show "col_view L w root column (calculate_file_hash ` S) (hash_view w S column)"
    unfolding col_view_def
  proof (rule ballI, elim imageE)
    fix h p assume h: "h = calculate_file_hash p" and p: "p \<in> S"
    from current_entry [OF cur p] obtain f d ff where e: "map_of (data w) p = Some f"
      "get_dir w root h = Some d" "map_of (fsts d) (fst_name column) = Some (Complete ff)"
      "indexes_pairs L ff (file_pairs column f)" unfolding h by metis
    from e(4) obtain s where "set_open L ff = Inr s" "set_indexes L s (file_pairs column f)"
      by (auto simp: indexes_pairs_def)
    with e get_dir_map_of [OF e(2)] hash_view_path [OF inj p e(1), of column]
    show "case hash_view w S column h of
        None \<Rightarrow> load_set L w root h column = Inr None
      | Some P \<Rightarrow> \<exists>s. load_set L w root h column = Inr (Some s) \<and> set_indexes L s P"
      by (simp add: load_set_def h)
  qed
qed

text \<open>An engine opened on the root, whatever it has cached since.\<close>

definition opened_on :: "('b, 'f, 's) fst_lib \<Rightarrow> 'f world \<Rightarrow> path \<Rightarrow> 's engine \<Rightarrow> bool" where
  "opened_on L w root e \<longleftrightarrow> same_index (engine_new w root) e \<and> coherent L w e"

lemma opened_on_new [simp]: "opened_on L w root (engine_new w root)"
  by (simp add: opened_on_def)

text \<open>The answer: a file with the row groups that hold a hit, when there are any.\<close>

definition answers ::
  "'f world \<Rightarrow> path set \<Rightarrow> column \<Rightarrow> (string \<Rightarrow> bool) \<Rightarrow> file_matches list \<Rightarrow> bool" where
  "answers w S column hit ms \<longleftrightarrow>
     (\<forall>m. m \<in> set ms \<longleftrightarrow>
        (\<exists>f. file_path m \<in> S \<and> map_of (data w) (file_path m) = Some f
           \<and> row_groups m = hit_row_groups hit (file_pairs column f) \<and> row_groups m \<noteq> []))"

context set_search
begin

lemma current_search:
  assumes cur: "all_current L H S w root column" and ok: "ok q" and e: "opened_on L w root e"
  shows "\<exists>ms e'. search_all L w e column (search L q) = (Inr ms, e')
    \<and> answers w S column (hit q) ms \<and> opened_on L w root e'"
proof -
  from e have idx: "index_dir e = root" and fm: "file_map e = file_map (engine_new w root :: 's engine)"
    and coh: "coherent L w e" and si: "same_index (engine_new w root) e"
    by (auto simp: opened_on_def same_index_def)
  have inj: "inj_on calculate_file_hash S" using cur by (simp add: all_current_def buildable_def)
  note cm = current_file_map [OF cur]
  let ?hs = "map fst (file_map e)" and ?v = "hash_view w S column"
  let ?vm = "view_matches (hit q) ?v ?hs"
  have hs: "set ?hs = calculate_file_hash ` S" using cm(1) by (simp only: fm)
  have "col_view L w (index_dir e) column (set ?hs) ?v" unfolding idx hs by (rule cm(3))
  from search_all_hits [OF ok coh this] obtain e' where e':
    "search_all L w e column (search L q) = (Inr (map (resolve_match e) (view_matches (hit q) ?v ?hs)), e')"
    "coherent L w e'" "same_index e e'" by blast
  have res: "resolve_match e (calculate_file_hash p, rgs) = \<lparr>file_path = p, row_groups = rgs\<rparr>"
    if "p \<in> S" for p rgs
    by (simp add: resolve_match_def fm cm(2) [OF that])
  have "answers w S column (hit q) (map (resolve_match e) (view_matches (hit q) ?v ?hs))"
    unfolding answers_def
  proof
    fix m :: file_matches
    obtain p rgs where m: "m = \<lparr>file_path = p, row_groups = rgs\<rparr>" by (cases m)
    have "m \<in> set (map (resolve_match e) (view_matches (hit q) ?v ?hs)) \<longleftrightarrow>
        (\<exists>h rgs'. (h, rgs') \<in> set (view_matches (hit q) ?v ?hs) \<and> m = resolve_match e (h, rgs'))"
      by force
    also have "\<dots> \<longleftrightarrow> (\<exists>p' \<in> S. \<exists>rgs'. (calculate_file_hash p', rgs') \<in> set (view_matches (hit q) ?v ?hs)
        \<and> m = \<lparr>file_path = p', row_groups = rgs'\<rparr>)"
    proof
      assume "\<exists>h rgs'. (h, rgs') \<in> set ?vm \<and> m = resolve_match e (h, rgs')"
      then obtain h rgs' where h: "(h, rgs') \<in> set ?vm" "m = resolve_match e (h, rgs')" by blast
      from h(1) obtain p' where "p' \<in> S" "h = calculate_file_hash p'"
        unfolding view_matches_iff hs by blast
      with h res show "\<exists>p' \<in> S. \<exists>rgs'. (calculate_file_hash p', rgs') \<in> set ?vm
        \<and> m = \<lparr>file_path = p', row_groups = rgs'\<rparr>" by auto
    next
      assume "\<exists>p' \<in> S. \<exists>rgs'. (calculate_file_hash p', rgs') \<in> set ?vm
        \<and> m = \<lparr>file_path = p', row_groups = rgs'\<rparr>"
      then obtain p' rgs' where "p' \<in> S" "(calculate_file_hash p', rgs') \<in> set ?vm"
        "m = \<lparr>file_path = p', row_groups = rgs'\<rparr>" by blast
      with res [of p' rgs'] show "\<exists>h rgs'. (h, rgs') \<in> set ?vm \<and> m = resolve_match e (h, rgs')"
        by metis
    qed
    also have "\<dots> \<longleftrightarrow> p \<in> S \<and> (calculate_file_hash p, rgs) \<in> set (view_matches (hit q) ?v ?hs)"
      by (auto simp: m)
    also have "\<dots> \<longleftrightarrow> (\<exists>f. p \<in> S \<and> map_of (data w) p = Some f
        \<and> rgs = hit_row_groups (hit q) (file_pairs column f) \<and> rgs \<noteq> [])"
    proof (cases "p \<in> S")
      case True
      from current_entry [OF cur True] obtain f where f: "map_of (data w) p = Some f" by metis
      with True hash_view_path [OF inj True f, of column] show ?thesis
        unfolding view_matches_iff hs by auto
    qed simp
    finally show "m \<in> set (map (resolve_match e) (view_matches (hit q) ?v ?hs)) \<longleftrightarrow>
        (\<exists>f. file_path m \<in> S \<and> map_of (data w) (file_path m) = Some f
           \<and> row_groups m = hit_row_groups (hit q) (file_pairs column f) \<and> row_groups m \<noteq> [])"
      by (simp add: m)
  qed
  with e' same_index_trans [OF si e'(3)] show ?thesis by (auto simp: opened_on_def)
qed

end

section \<open>From a build to the answers\<close>

lemma build_index_ext_all_current:
  assumes "fst_ok L" "buildable H (set (walk_parquet w dir)) w root"
    "tree_within w root (set (walk_parquet w dir))"
    "force \<or> stat_determines H \<and> col_sync L H (set (walk_parquet w dir)) w root column"
  obtains w' where "build_index_ext L root w dir column force = (Inr (), w')" "data w' = data w"
    "all_current L H (set (walk_parquet w dir)) w' root column"
    "col_sync L H (set (walk_parquet w dir)) w root column \<Longrightarrow>
     col_sync L H (set (walk_parquet w dir)) w' root column"
proof (rule build_index_ext_current [OF assms(1,2,4)])
  fix w'
  assume b: "build_index_ext L root w dir column force = (Inr (), w')" "data w' = data w"
    "\<And>p f. p \<in> set (walk_parquet w dir) \<Longrightarrow> map_of (data w) p = Some f \<Longrightarrow>
       entry_current L w' root p column f"
    "buildable H (set (walk_parquet w dir)) w' root"
    "col_sync L H (set (walk_parquet w dir)) w root column \<Longrightarrow>
     col_sync L H (set (walk_parquet w dir)) w' root column"
  have "tree_within (create_root root w) root (set (walk_parquet w dir))"
    using assms(3) by (simp add: tree_within_def)
  from build_files_tree_within [OF this order_refl, of L column force] b(1)
  have "tree_within w' root (set (walk_parquet w dir))"
    by (simp add: build_index_ext_def)
  with b that show thesis by (auto simp: all_current_def)
qed

text \<open>
  The state of an index root a build of \<open>column\<close> may start from: one that a succession of builds
  of this column, over changing files, has left (or no directory at all).
\<close>

definition build_ready ::
  "('b, 'f, 's) fst_lib \<Rightarrow> (path \<Rightarrow> pfile set) \<Rightarrow> 'f world \<Rightarrow> path \<Rightarrow> path \<Rightarrow> column \<Rightarrow> bool" where
  "build_ready L H w dir root column \<longleftrightarrow>
     buildable H (set (walk_parquet w dir)) w root
     \<and> tree_within w root (set (walk_parquet w dir))
     \<and> stat_determines H \<and> col_sync L H (set (walk_parquet w dir)) w root column"

definition current_versions :: "'f world \<Rightarrow> path \<Rightarrow> pfile set" where
  "current_versions w p = {f. map_of (data w) p = Some f}"

text \<open>A fresh index root is ready when the walked files are good and their paths and hashes fit.\<close>

definition files_ok :: "'f world \<Rightarrow> path \<Rightarrow> bool" where
  "files_ok w dir \<longleftrightarrow>
     inj_on calculate_file_hash (set (walk_parquet w dir))
     \<and> list_all (\<lambda>p. path_ok p \<and> (case map_of (data w) p of None \<Rightarrow> False | Some f \<Rightarrow> good_file f))
         (walk_parquet w dir)"

lemma build_ready_fresh:
  assumes "files_ok w dir" "indexes w root = None"
  shows "build_ready L (current_versions w) w dir root column"
  using assms
  by (auto simp: build_ready_def files_ok_def buildable_def tree_within_def tree_of_def slot_free_def
      stat_determines_def col_sync_def get_dir_def current_versions_def list_all_iff
      split: option.splits)

lemma build_ready_built:
  assumes "fst_ok L" "build_ready L H w dir root column"
  shows "\<exists>w'. build_index L root w dir column = (Inr (), w') \<and> data w' = data w
    \<and> all_current L H (set (walk_parquet w dir)) w' root column
    \<and> build_ready L H w' dir root column"
proof -
  from assms(2) have br: "buildable H (set (walk_parquet w dir)) w root"
    "tree_within w root (set (walk_parquet w dir))" "stat_determines H"
    "col_sync L H (set (walk_parquet w dir)) w root column" by (simp_all add: build_ready_def)
  show ?thesis
  proof (rule build_index_ext_all_current [OF assms(1) br(1,2), of False column])
    show "False \<or> stat_determines H \<and> col_sync L H (set (walk_parquet w dir)) w root column"
      using br(3,4) by simp
  next
    fix w'
    assume w': "build_index_ext L root w dir column False = (Inr (), w')" "data w' = data w"
      "all_current L H (set (walk_parquet w dir)) w' root column"
      "col_sync L H (set (walk_parquet w dir)) w root column \<Longrightarrow>
       col_sync L H (set (walk_parquet w dir)) w' root column"
    have "walk_parquet w' dir = walk_parquet w dir" by (simp add: walk_parquet_def w'(2))
    with w' br show ?thesis
      by (simp add: build_index_def build_ready_def all_current_def)
  qed
qed

text \<open>A second build finds nothing to do.\<close>

lemma build_files_skip:
  "\<forall>p \<in> set ps. needs_indexing root w p column = Inr False \<Longrightarrow>
   build_files L root column False w ps = (Inr (), w)"
  by (induction ps) auto

lemma current_needs_no_indexing:
  assumes "all_current L H S w root column" "p \<in> S"
  shows "needs_indexing root w p column = Inr False"
proof -
  from current_entry [OF assms] obtain f d ff where e: "map_of (data w) p = Some f" "good_file f"
    "path_ok p" "get_dir w root (calculate_file_hash p) = Some d" "meta d = Some (file_metadata p f)"
    "map_of (fsts d) (fst_name column) = Some (Complete ff)" by metis
  from needs_indexing_stat [OF e(4,5) _ e(1,2,2,3), of column] e(6) show ?thesis by simp
qed

section \<open>Values free of NUL\<close>

definition plain_values :: "column \<Rightarrow> pfile \<Rightarrow> bool" where
  "plain_values column f \<longleftrightarrow> (\<forall>(v, n) \<in> file_pairs column f. CHR 0x00 \<notin> set v)"

definition plain_files :: "'f world \<Rightarrow> path \<Rightarrow> column \<Rightarrow> bool" where
  "plain_files w dir column \<longleftrightarrow>
     (\<forall>p \<in> set (walk_parquet w dir). \<forall>f. map_of (data w) p = Some f \<longrightarrow> plain_values column f)"

lemma hit_row_groups_cong:
  "(\<And>v n. (v, n) \<in> P \<Longrightarrow> hit v = hit' v) \<Longrightarrow> hit_row_groups hit P = hit_row_groups hit' P"
  unfolding hit_row_groups_def by (rule arg_cong [where f = sorted_list_of_set]) auto

lemma file_pairs_bound: "good_file f \<Longrightarrow> \<forall>(v, n) \<in> file_pairs column f. n < usize_bound"
  by (auto simp: file_pairs_def good_file_def split: sum.splits)

lemma answers_good_file:
  assumes "all_current L H S w root column" "answers w S column hit ms" "m \<in> set ms"
  obtains f where "map_of (data w) (file_path m) = Some f" "good_file f" "file_path m \<in> S"
    "row_groups m = hit_row_groups hit (file_pairs column f)" "row_groups m \<noteq> []"
proof -
  from assms(2,3) obtain f where f: "file_path m \<in> S" "map_of (data w) (file_path m) = Some f"
    "row_groups m = hit_row_groups hit (file_pairs column f)" "row_groups m \<noteq> []"
    by (auto simp: answers_def)
  from current_entry [OF assms(1) f(1)] f(2) have "good_file f" by (metis option.inject)
  with f that show thesis by blast
qed

lemma answers_empty_iff:
  assumes cur: "all_current L H S w root column" and a: "answers w S column hit ms"
  shows "ms = [] \<longleftrightarrow> \<not> (\<exists>p \<in> S. \<exists>f v n. map_of (data w) p = Some f \<and> (v, n) \<in> file_pairs column f \<and> hit v)"
proof -
  have "ms \<noteq> [] \<longleftrightarrow> (\<exists>m. m \<in> set ms)" by (cases ms) auto
  also have "\<dots> \<longleftrightarrow> (\<exists>p \<in> S. \<exists>f. map_of (data w) p = Some f
      \<and> hit_row_groups hit (file_pairs column f) \<noteq> [])"
  proof
    assume "\<exists>m. m \<in> set ms"
    with a show "\<exists>p \<in> S. \<exists>f. map_of (data w) p = Some f \<and> hit_row_groups hit (file_pairs column f) \<noteq> []"
      unfolding answers_def by metis
  next
    assume "\<exists>p \<in> S. \<exists>f. map_of (data w) p = Some f \<and> hit_row_groups hit (file_pairs column f) \<noteq> []"
    then obtain p f where "p \<in> S" "map_of (data w) p = Some f"
      "hit_row_groups hit (file_pairs column f) \<noteq> []" by blast
    with a have "\<lparr>file_path = p, row_groups = hit_row_groups hit (file_pairs column f)\<rparr> \<in> set ms"
      unfolding answers_def by simp
    then show "\<exists>m. m \<in> set ms" by blast
  qed
  also have "\<dots> \<longleftrightarrow> (\<exists>p \<in> S. \<exists>f v n. map_of (data w) p = Some f \<and> (v, n) \<in> file_pairs column f \<and> hit v)"
  proof (rule bex_cong [OF refl])
    fix p assume p: "p \<in> S"
    from current_entry [OF cur p] obtain f where f: "map_of (data w) p = Some f" "good_file f" by metis
    from hit_row_groups_empty [OF file_pairs_bound [OF f(2)], of hit column] f(1)
    show "(\<exists>f. map_of (data w) p = Some f \<and> hit_row_groups hit (file_pairs column f) \<noteq> []) \<longleftrightarrow>
        (\<exists>f v n. map_of (data w) p = Some f \<and> (v, n) \<in> file_pairs column f \<and> hit v)" by simp
  qed
  finally show ?thesis by blast
qed

section \<open>Builds over changing files\<close>

text \<open>
  The life of an index root for one column: it starts empty, and builds alternate with changes of
  the data files (a file rewritten or a file added).  \<open>H p\<close> collects the versions of \<open>p\<close>.
\<close>

inductive index_history ::
  "('b, 'f, 's) fst_lib \<Rightarrow> path \<Rightarrow> path \<Rightarrow> column \<Rightarrow> (path \<Rightarrow> pfile set) \<Rightarrow> 'f world \<Rightarrow> bool"
  for L dir root column where
  start: "files_ok w dir \<Longrightarrow> indexes w root = None \<Longrightarrow>
    index_history L dir root column (current_versions w) w"
| build: "index_history L dir root column H w \<Longrightarrow> build_index L root w dir column = (r, w') \<Longrightarrow>
    index_history L dir root column H w'"
| change: "index_history L dir root column H w \<Longrightarrow> w' = w\<lparr>data := AList.update p f (data w)\<rparr> \<Longrightarrow>
    files_ok w' dir \<Longrightarrow> index_history L dir root column (H(p := insert f (H p))) w'"

lemma tree_of_data [simp]: "tree_of (w\<lparr>data := d\<rparr>) root = tree_of w root"
  by (simp add: tree_of_def)

lemma get_dir_data [simp]: "get_dir (w\<lparr>data := d\<rparr>) root h = get_dir w root h"
  by (simp add: get_dir_def)

lemma walk_parquet_update:
  "set (walk_parquet w dir) \<subseteq> set (walk_parquet (w\<lparr>data := AList.update p f (data w)\<rparr>) dir)"
  by (auto simp: walk_parquet_def dom_update)

lemma stat_determines_mono:
  "stat_determines (H(p := insert f (H p))) \<Longrightarrow> stat_determines H"
  unfolding stat_determines_def by (metis fun_upd_apply insertCI)

lemma files_okD:
  assumes "files_ok w dir" "p \<in> set (walk_parquet w dir)"
  shows "\<exists>f. map_of (data w) p = Some f \<and> good_file f" "path_ok p"
  using assms by (auto simp: files_ok_def list_all_iff split: option.splits)

lemma build_ready_change:
  assumes b: "build_ready L H w dir root column" and w': "w' = w\<lparr>data := AList.update p f (data w)\<rparr>"
    and ok: "files_ok w' dir" and st: "stat_determines (H(p := insert f (H p)))"
  shows "build_ready L (H(p := insert f (H p))) w' dir root column"
proof -
  let ?S = "set (walk_parquet w dir)" and ?S' = "set (walk_parquet w' dir)"
    and ?H = "H(p := insert f (H p))"
  from b have bu: "buildable H ?S w root" and tw: "tree_within w root ?S"
    and cs: "col_sync L H ?S w root column" by (auto simp: build_ready_def)
  have sub: "?S \<subseteq> ?S'" unfolding w' by (rule walk_parquet_update)
  have inj: "inj_on calculate_file_hash ?S'" using ok by (simp add: files_ok_def)
  have old: "q \<in> ?S" if "q \<in> ?S'" "calculate_file_hash q \<in> set (map fst (tree_of w root))" for q
  proof -
    from that(2) tw have "calculate_file_hash q \<in> calculate_file_hash ` ?S"
      unfolding tree_within_def by blast
    then obtain q' where "q' \<in> ?S" "calculate_file_hash q = calculate_file_hash q'" by blast
    with inj sub that(1) show ?thesis by (metis inj_onD subsetD)
  qed
  have key: "h \<in> set (map fst (tree_of w root))" if "map_of (tree_of w root) h = Some en" for h en
    using that by (force dest: map_of_SomeD)
  have "slot_free w' root q" if "q \<in> ?S'" for q
    using bu old [OF that] key unfolding buildable_def slot_free_def w' tree_of_data by blast
  moreover have "\<exists>g \<in> ?H q. map_of (data w') q = Some g \<and> good_file g" if q: "q \<in> ?S'" for q
  proof -
    from files_okD(1) [OF ok q] obtain g where g: "map_of (data w') q = Some g" "good_file g" by blast
    show ?thesis
    proof (cases "q = p")
      case True
      with g w' show ?thesis by (auto simp: update_conv')
    next
      case False
      with g(1) w' have m: "map_of (data w) q = Some g" by (simp add: update_conv')
      then have "q \<in> set (map fst (data w))" by (force dest: map_of_SomeD)
      with q have "q \<in> ?S" by (simp add: walk_parquet_def)
      with bu m have "g \<in> H q" by (auto simp: buildable_def)
      with g False show ?thesis by auto
    qed
  qed
  ultimately have "buildable ?H ?S' w' root"
    using inj files_okD(2) [OF ok] by (auto simp: buildable_def)
  moreover have "tree_within w' root ?S'"
    using tw sub unfolding tree_within_def w' tree_of_data by blast
  moreover have "col_sync L ?H ?S' w' root column"
    unfolding col_sync_def
  proof (intro ballI allI impI)
    fix q d x
    assume q: "q \<in> ?S'" and d: "get_dir w' root (calculate_file_hash q) = Some d
      \<and> map_of (fsts d) (fst_name column) = Some x"
    then have d': "get_dir w root (calculate_file_hash q) = Some d"
      "map_of (fsts d) (fst_name column) = Some x" by (simp_all add: w')
    have "q \<in> ?S" by (rule old [OF q key [OF get_dir_map_of [OF d'(1)]]])
    from col_syncE [OF cs this d'] show "\<exists>g ff. g \<in> ?H q \<and> good_file g
      \<and> meta d = Some (file_metadata q g) \<and> x = Complete ff \<and> indexes_pairs L ff (file_pairs column g)"
      by (metis fun_upd_apply insertCI)
  qed
  ultimately show ?thesis using st by (simp add: build_ready_def)
qed

lemma history_build_ready:
  assumes "fst_ok L"
  shows "index_history L dir root column H w \<Longrightarrow> stat_determines H \<Longrightarrow>
    build_ready L H w dir root column"
proof (induction rule: index_history.induct)
  case (start w)
  then show ?case by (intro build_ready_fresh)
next
  case (build H w r w')
  then show ?case using build_ready_built [OF assms build.IH [OF build.prems]] by auto
next
  case (change H w w' p f)
  show ?case
    by (rule build_ready_change [OF change.IH [OF stat_determines_mono [OF change.prems]]
          change.hyps(2,3) change.prems])
qed

section \<open>The searches on a current root\<close>

lemma exact_search_current:
  assumes "all_current L H S w root column" "opened_on L w root e"
  shows "\<exists>ms e'. exact_search L w e column t = (Inr ms, e')
    \<and> answers w S column (exact_hit t) ms \<and> opened_on L w root e'"
  unfolding exact_search_def by (rule exact.current_search [OF assms(1) TrueI assms(2)])

lemma prefix_search_current:
  assumes "all_current L H S w root column" "opened_on L w root e" "searchable_prefix p"
  shows "\<exists>ms e'. prefix_search L w e column p = (Inr ms, e')
    \<and> answers w S column (Sublist.prefix p) ms \<and> opened_on L w root e'"
  unfolding prefix_search_def by (rule prefix.current_search [OF assms(1,3,2)])

lemma range_search_current:
  assumes "all_current L H S w root column" "opened_on L w root e"
    "CHR 0x00 \<notin> set a" "CHR 0x00 \<notin> set b"
  shows "\<exists>ms e'. range_search L w e column a b = (Inr ms, e')
    \<and> answers w S column (range_hit a b) ms \<and> opened_on L w root e'"
  using range.current_search [OF assms(1) _ assms(2), of "(a, b)"] assms(3,4)
  by (simp add: range_search_def)

lemma history_built:
  assumes "fst_ok L" "index_history L dir root column H w" "stat_determines H"
  obtains w' where "build_index L root w dir column = (Inr (), w')" "data w' = data w"
    "walk_parquet w' dir = walk_parquet w dir"
    "all_current L H (set (walk_parquet w dir)) w' root column"
proof -
  from build_ready_built [OF assms(1) history_build_ready [OF assms]] obtain w' where w':
    "build_index L root w dir column = (Inr (), w')" "data w' = data w"
    "all_current L H (set (walk_parquet w dir)) w' root column" by blast
  moreover have "walk_parquet w' dir = walk_parquet w dir" by (simp add: walk_parquet_def w'(2))
  ultimately show thesis by (intro that)
qed

lemma answers_data: "data w' = data w \<Longrightarrow> answers w' S column hit ms = answers w S column hit ms"
  by (simp add: answers_def)

definition has_root :: "'f world \<Rightarrow> path \<Rightarrow> bool" where
  "has_root w root \<longleftrightarrow> indexes w root \<noteq> None"

lemma has_root_put [simp]:
  "has_root (put_tree root t w) root" "has_root (create_root root w) root"
  "has_root (put_dir root h d w) root"
  by (simp_all add: has_root_def put_tree_def create_root_def put_dir_def)

lemma has_root_write [simp]:
  "has_root w root \<Longrightarrow> has_root (write_meta root h c w) root"
  "has_root w root \<Longrightarrow> has_root (write_fst_file root h n ff w) root"
  "has_root w root \<Longrightarrow> create_index_dir root h w = Inr w1 \<Longrightarrow> has_root w1 root"
  by (auto simp: write_meta_def write_fst_file_def create_index_dir_def
      split: option.splits entry.splits)

lemma index_file_root:
  "has_root w root \<Longrightarrow> has_root (snd (index_file L root w p column)) root"
  by (cases "create_index_dir root (calculate_file_hash p) w")
     (auto simp: index_file_def Let_def split: option.split sum.split)

lemma build_files_root:
  "has_root w root \<Longrightarrow> has_root (snd (build_files L root column force w ps)) root"
proof (induction ps arbitrary: w)
  case (Cons p ps)
  from Cons.IH [OF index_file_root [OF Cons.prems, of L p column]] Cons.IH [OF Cons.prems] Cons.prems
    index_file_root [OF Cons.prems, of L p column]
  show ?case by (cases "index_file L root w p column") (auto split: sum.split bool.split)
qed simp

lemma create_root_id: "has_root w root \<Longrightarrow> create_root root w = w"
  by (auto simp: has_root_def create_root_def put_tree_def tree_of_def fun_upd_idem)

lemma build_index_root:
  "build_index L root w dir column = (r, w') \<Longrightarrow> has_root w' root"
  using build_files_root [of "create_root root w" root L column False "walk_parquet w dir"]
  by (simp add: build_index_def build_index_ext_def)

lemma build_file_map_distinct:
  "distinct (map fst m) \<Longrightarrow> distinct (map fst (fst (build_file_map es m counts)))"
  by (induction es m counts rule: build_file_map.induct) (auto simp: distinct_update split: list.split)

lemma file_map_distinct: "distinct (map fst (file_map (engine_new w dir)))"
  using build_file_map_distinct [of "[]" "tree_of w dir" "[]"]
  by (cases "build_file_map (tree_of w dir) [] []") (simp add: engine_new_def)

lemma exact_search_multi_current:
  assumes cur: "all_current L H S w root column" and e: "opened_on L w root e"
  shows "\<exists>e'. exact_search_multi L w e column terms =
      (Inr (\<Sum>t \<leftarrow> terms. card {p \<in> S. \<exists>f v n. map_of (data w) p = Some f
         \<and> (v, n) \<in> file_pairs column f \<and> exact_hit t v}), e') \<and> opened_on L w root e'"
proof -
  from e have idx: "index_dir e = root" and fm: "file_map e = file_map (engine_new w root :: 'c engine)"
    and coh: "coherent L w e" and si: "same_index (engine_new w root) e"
    by (auto simp: opened_on_def same_index_def)
  have inj: "inj_on calculate_file_hash S" using cur by (simp add: all_current_def buildable_def)
  let ?hs = "map fst (file_map e)" and ?v = "hash_view w S column"
  let ?Q = "\<lambda>t h. case ?v h of None \<Rightarrow> False | Some P \<Rightarrow> \<exists>v n. (v, n) \<in> P \<and> exact_hit t v"
  have hs: "set ?hs = calculate_file_hash ` S" using current_file_map(1) [OF cur] by (simp only: fm)
  have "col_view L w (index_dir e) column (set ?hs) ?v"
    unfolding idx hs by (rule current_file_map(3) [OF cur])
  from multi_files_hits [OF coh this, of terms] obtain e' where e':
    "multi_files L w e column terms ?hs = (Inr (\<Sum>h \<leftarrow> ?hs. length (filter (\<lambda>t. ?Q t h) terms)), e')"
    "coherent L w e'" "same_index e e'" by blast
  have "length (filter (?Q t) ?hs) = card {p \<in> S. \<exists>f v n. map_of (data w) p = Some f
         \<and> (v, n) \<in> file_pairs column f \<and> exact_hit t v}" for t
  proof -
    have q: "?Q t (calculate_file_hash p) \<longleftrightarrow> (\<exists>f v n. map_of (data w) p = Some f
         \<and> (v, n) \<in> file_pairs column f \<and> exact_hit t v)" if "p \<in> S" for p
    proof -
      from current_entry [OF cur that] obtain f where "map_of (data w) p = Some f" by metis
      with hash_view_path [OF inj that this, of column] show ?thesis by simp
    qed
    have "length (filter (?Q t) ?hs) = card (set (filter (?Q t) ?hs))"
      by (rule distinct_card [symmetric], rule distinct_filter) (simp only: fm file_map_distinct)
    also have "set (filter (?Q t) ?hs) = calculate_file_hash ` {p \<in> S. ?Q t (calculate_file_hash p)}"
      unfolding set_filter hs by blast
    also have "card \<dots> = card {p \<in> S. ?Q t (calculate_file_hash p)}"
      by (rule card_image) (rule inj_on_subset [OF inj], blast)
    also have "{p \<in> S. ?Q t (calculate_file_hash p)} = {p \<in> S. \<exists>f v n. map_of (data w) p = Some f
         \<and> (v, n) \<in> file_pairs column f \<and> exact_hit t v}"
      using q by blast
    finally show ?thesis .
  qed
  with e' double_count [of ?Q ?hs terms, symmetric] same_index_trans [OF si e'(3)] show ?thesis
    by (simp add: exact_search_multi_def opened_on_def)
qed

section \<open>The shape of the matches\<close>

lemma view_matches_keys:
  "distinct hs \<Longrightarrow> distinct (map fst (view_matches hit view hs)) \<and> fst ` set (view_matches hit view hs) \<subseteq> set hs"
proof (induction hs)
  case (Cons h hs)
  have "view_matches hit view (h # hs) = (case view h of None \<Rightarrow> []
      | Some P \<Rightarrow> let rgs = hit_row_groups hit P in if rgs = [] then [] else [(h, rgs)]) @ view_matches hit view hs"
    by (simp add: view_matches_def)
  with Cons show ?case by (auto simp: Let_def split: option.splits)
qed (simp add: view_matches_def)

context set_search
begin

lemma current_search_once:
  assumes cur: "all_current L H S w root column" and ok: "ok q" and e: "opened_on L w root e"
    and r: "search_all L w e column (search L q) = (Inr ms, e')"
  shows "distinct (map file_path ms)"
proof -
  from e have idx: "index_dir e = root" and fm: "file_map e = file_map (engine_new w root :: 's engine)"
    and coh: "coherent L w e" by (auto simp: opened_on_def same_index_def)
  note cm = current_file_map [OF cur]
  let ?hs = "map fst (file_map e)" and ?v = "hash_view w S column"
  let ?vm = "view_matches (hit q) ?v ?hs"
  have hs: "set ?hs = calculate_file_hash ` S" using cm(1) by (simp only: fm)
  have "col_view L w (index_dir e) column (set ?hs) ?v" unfolding idx hs by (rule cm(3))
  from search_all_hits [OF ok coh this] r have ms: "ms = map (resolve_match e) ?vm" by auto
  have vm: "distinct (map fst ?vm)" "fst ` set ?vm \<subseteq> calculate_file_hash ` S"
  proof -
    have "distinct ?hs" unfolding fm by (rule file_map_distinct)
    from view_matches_keys [OF this, of "hit q" ?v]
    show "distinct (map fst ?vm)" "fst ` set ?vm \<subseteq> calculate_file_hash ` S" unfolding hs by blast+
  qed
  have path: "file_path (resolve_match e x) = p" if "fst x = calculate_file_hash p" "p \<in> S" for x p
    by (simp add: resolve_match_def that(1) fm cm(2) [OF that(2)])
  have "inj_on (\<lambda>x. file_path (resolve_match e x)) (set ?vm)"
  proof (rule inj_onI)
    fix x y assume x: "x \<in> set ?vm" "y \<in> set ?vm"
      and eq: "file_path (resolve_match e x) = file_path (resolve_match e y)"
    from x vm(2) obtain p p' where "p \<in> S" "fst x = calculate_file_hash p"
      "p' \<in> S" "fst y = calculate_file_hash p'" by blast
    with eq path have "fst x = fst y" by metis
    with x vm(1) show "x = y" by (auto simp: distinct_map dest: inj_onD)
  qed
  with vm(1) show ?thesis by (simp add: ms distinct_map comp_def)
qed

end

lemma answers_bounded:
  assumes cur: "all_current L H S w root column" and a: "answers w S column hit ms" and m: "m \<in> set ms"
  shows "row_groups m \<noteq> [] \<and> sorted_wrt (<) (row_groups m)
    \<and> (\<exists>n. num_row_groups (engine_new w root :: 's engine) (calculate_file_hash (file_path m)) = Some n
          \<and> (\<forall>r \<in> set (row_groups m). r < n))"
proof -
  from answers_good_file [OF cur a m] obtain f where f: "map_of (data w) (file_path m) = Some f"
    "good_file f" "file_path m \<in> S" "row_groups m = hit_row_groups hit (file_pairs column f)"
    "row_groups m \<noteq> []" .
  have "r < num_row_groups_of f" if "r \<in> set (row_groups m)" for r
    using that set_hit_row_groups [OF file_pairs_bound [OF f(2)], of hit column]
    by (auto simp: f(4) file_pairs_def num_row_groups_of_def split: sum.splits)
  moreover have "num_row_groups (engine_new w root :: 's engine) (calculate_file_hash (file_path m))
      = Some (num_row_groups_of f)"
    by (rule current_file_map(4) [OF cur f(3,1)])
  moreover have "sorted_wrt (<) (row_groups m)" by (simp add: f(4) hit_row_groups_def)
  ultimately show ?thesis using f(5) by blast
qed

lemma opened_search_all:
  fixes L :: "('b, 'f, 's) fst_lib"
  assumes "opened_on L w root e"
  shows "fst (search_all L w e column search) = fst (search_all L w (engine_new w root) column search)"
proof -
  have "index_dir e = index_dir (engine_new w root :: 's engine)"
    and fm: "file_map e = file_map (engine_new w root :: 's engine)" and coh: "coherent L w e"
    using assms by (auto simp: opened_on_def same_index_def)
  moreover have "resolve_match e = resolve_match (engine_new w root :: 's engine)"
    by (simp add: resolve_match_def fm fun_eq_iff)
  moreover have "fst (search_all L w e' column search) =
      (case search_files_pure L w (index_dir e') column search (map fst (file_map e')) of
         Inl er \<Rightarrow> Inl er | Inr ms \<Rightarrow> Inr (map (resolve_match e') ms))" if "coherent L w e'" for e'
    using search_all_coherent [OF that, of column search] by auto
  ultimately show ?thesis by (simp split: sum.split)
qed

section \<open>Writes and other entries\<close>

lemma fst_name_inject [simp]: "fst_name a = fst_name b \<longleftrightarrow> a = b"
  by (simp add: fst_name_def)

lemma get_dir_slot_free: "get_dir w root (calculate_file_hash p) = Some d \<Longrightarrow> slot_free w root p"
  by (auto simp: get_dir_def slot_free_def split: option.splits entry.splits)

lemma get_dir_write [simp]:
  "h' \<noteq> h \<Longrightarrow> get_dir (write_meta root h c w) root h' = get_dir w root h'"
  "h' \<noteq> h \<Longrightarrow> get_dir (write_fst_file root h n ff w) root h' = get_dir w root h'"
  by (simp_all add: write_meta_def write_fst_file_def split: option.split)

lemma create_index_dir_frame:
  assumes "create_index_dir root h w = Inr w1"
  shows "data w1 = data w" "h' \<noteq> h \<Longrightarrow> get_dir w1 root h' = get_dir w root h'"
  using assms by (auto simp: create_index_dir_def split: option.splits entry.splits)

definition no_string_column :: "column \<Rightarrow> pfile \<Rightarrow> bool" where
  "no_string_column column f \<longleftrightarrow>
     (\<forall>rgs bs b. contents f = Inr rgs \<and> Inr bs \<in> set rgs \<and> Inr b \<in> set bs \<longrightarrow>
        map_of b column = None \<or> map_of b column = Some OtherArray)"

lemma no_string_column_pairs: "no_string_column column f \<Longrightarrow> file_pairs column f = {}"
proof -
  assume l: "no_string_column column f"
  have "v \<notin> row_group_values column (rgs ! n)" if "contents f = Inr rgs" "n < length rgs" for rgs n v
  proof (cases "rgs ! n")
    case (Inr bs)
    with that have bs: "Inr bs \<in> set rgs" by (metis nth_mem)
    have "v \<notin> batch_values column b" if "Inr b \<in> set bs" for b
    proof -
      have "map_of b column = None \<or> map_of b column = Some OtherArray"
        using l \<open>contents f = Inr rgs\<close> bs that unfolding no_string_column_def by blast
      then show ?thesis by (auto simp: batch_values_def)
    qed
    with Inr show ?thesis by (auto simp: row_group_values_def)
  qed (simp add: row_group_values_def)
  then show ?thesis by (auto simp: file_pairs_def split: sum.split)
qed

section \<open>Listings\<close>

lemma fst_name_parts:
  "column \<noteq> [] \<Longrightarrow> name_extension (fst_name column) = Some ''fst'' \<and> name_stem (fst_name column) = column"
proof -
  assume "column \<noteq> []"
  moreover have "rposition (\<lambda>c. c = CHR ''.'') (fst_name column) = Some (length column)"
    unfolding fst_name_def by (rule rposition_last) simp_all
  moreover have "fst_name column \<noteq> ''..''"
  proof
    assume "fst_name column = ''..''"
    then have "length (fst_name column) = 2" by simp
    then show False by (simp add: fst_name_def)
  qed
  ultimately show ?thesis by (simp add: name_extension_def name_stem_def) (simp add: fst_name_def)
qed

lemma resolve_fold:
  assumes "inj_on calculate_file_hash S" "p \<in> S"
  shows "set ps \<subseteq> S \<Longrightarrow> map_of (fold (\<lambda>p m. if calculate_file_hash p \<in> set hs
        then AList.update (calculate_file_hash p) p m else m) ps m) (calculate_file_hash p) =
      (if p \<in> set ps \<and> calculate_file_hash p \<in> set hs then Some p else map_of m (calculate_file_hash p))"
proof (induction ps arbitrary: m)
  case (Cons q ps)
  have "calculate_file_hash q = calculate_file_hash p \<longleftrightarrow> q = p"
    using assms Cons.prems by (auto simp: inj_on_def)
  with Cons show ?case by (auto simp: update_conv')
qed simp

section \<open>Pruning\<close>

lemma is_orphan_data: "data w' = data w \<Longrightarrow> is_orphan w' = is_orphan w"
  by (simp add: is_orphan_def fun_eq_iff split: entry.split option.split list.split)

lemma is_orphan_put_tree [simp]: "is_orphan (put_tree root t w) = is_orphan w"
  by (rule is_orphan_data) simp

lemma put_tree_twice [simp]: "put_tree root u (put_tree root t w) = put_tree root u w"
  by (simp add: put_tree_def)

lemma delete_filter: "AList.delete h xs = filter (\<lambda>x. fst x \<noteq> h) xs"
  unfolding AList.delete_eq by (rule filter_cong) auto

text \<open>The loop drops the entries of the listing that are orphans, and counts them.\<close>

lemma prune_entries_correct:
  assumes "\<forall>x \<in> set es. \<not> isl (is_orphan w (snd x))" "indexes w root = Some t"
  shows "prune_entries root es n w =
    (Inr (n + length (filter (\<lambda>x. is_orphan w (snd x) = Inr True) es)),
     put_tree root (filter (\<lambda>y. fst y \<notin> fst ` {x \<in> set es. is_orphan w (snd x) = Inr True}) t) w)"
  using assms
proof (induction es arbitrary: n w t)
  case Nil
  then show ?case by (simp add: put_tree_def fun_upd_idem)
next
  case (Cons x es)
  obtain h en where x: "x = (h, en)" by (cases x)
  from Cons.prems(1) x obtain b where b: "is_orphan w en = Inr b"
    by (cases "is_orphan w en") auto
  show ?case
  proof (cases b)
    case False
    have "{y \<in> set (x # es). is_orphan w (snd y) = Inr True} = {y \<in> set es. is_orphan w (snd y) = Inr True}"
      using x b False by auto
    with Cons.IH [of w t n] Cons.prems x b False show ?thesis by simp
  next
    case True
    let ?w = "put_tree root (AList.delete h t) w"
    have t: "tree_of w root = t" using Cons.prems(2) by (simp add: tree_of_def)
    have i: "indexes ?w root = Some (AList.delete h t)" by (simp add: put_tree_def)
    have "{y \<in> set (x # es). is_orphan w (snd y) = Inr True} =
        insert x {y \<in> set es. is_orphan w (snd y) = Inr True}"
      using x b True by auto
    with Cons.IH [of ?w "AList.delete h t" "n + 1"] Cons.prems(1) x b True i t show ?thesis
      by (simp add: delete_filter conj_commute)
  qed
qed

lemma prune_orphans_correct:
  assumes "indexes w root = Some t" "distinct (map fst t)" "\<forall>x \<in> set t. \<not> isl (is_orphan w (snd x))"
  shows "prune_orphans root w =
    (Inr (length (filter (\<lambda>x. is_orphan w (snd x) = Inr True) t)),
     put_tree root (filter (\<lambda>x. is_orphan w (snd x) \<noteq> Inr True) t) w)"
proof -
  have "fst y \<notin> fst ` {x \<in> set t. is_orphan w (snd x) = Inr True} \<longleftrightarrow> is_orphan w (snd y) \<noteq> Inr True"
    if "y \<in> set t" for y
    using assms(2) that by (auto simp: distinct_map inj_on_def)
  then have "filter (\<lambda>y. fst y \<notin> fst ` {x \<in> set t. is_orphan w (snd x) = Inr True}) t =
      filter (\<lambda>x. is_orphan w (snd x) \<noteq> Inr True) t"
    by (rule filter_cong [OF refl])
  with prune_entries_correct [OF assms(3,1), of 0] assms(1) show ?thesis
    by (simp add: prune_orphans_def)
qed


lemma is_orphan_current:
  assumes "all_current L H S w root column" "p \<in> S" "map_of (tree_of w root) (calculate_file_hash p) = Some en"
    "data w' = AList.delete q (data w)"
  shows "is_orphan w' en = Inr (p = q)"
proof -
  from current_entry [OF assms(1,2)] obtain f d where e: "map_of (data w) p = Some f" "path_ok p"
    "get_dir w root (calculate_file_hash p) = Some d" "meta d = Some (file_metadata p f)" by metis
  from get_dir_map_of [OF e(3)] assms(3) have "en = IdxDir d" by simp
  with e show ?thesis
    by (simp add: is_orphan_def assms(4) file_metadata_def utf8_valid_metadata lines_of_metadata
        delete_conv')
qed

lemma length_filter_key:
  "distinct (map fst t) \<Longrightarrow> h \<in> fst ` set t \<Longrightarrow> length (filter (\<lambda>x. fst x = h) t) = 1"
proof (induction t)
  case (Cons x t)
  show ?case
  proof (cases "fst x = h")
    case True
    with Cons.prems(1) have "filter (\<lambda>x. fst x = h) t = []"
      unfolding filter_empty_conv by (auto simp: rev_image_eqI)
    with True show ?thesis by simp
  next
    case False
    with Cons show ?thesis by auto
  qed
qed simp

lemma all_current_remove:
  assumes cur: "all_current L H S w root column" and q: "q \<in> S"
    and dat: "data w2 = AList.delete q (data w)"
    and tree: "tree_of w2 root = AList.delete (calculate_file_hash q) (tree_of w root)"
  shows "all_current L H (S - {q}) w2 root column"
proof -
  from cur have inj: "inj_on calculate_file_hash S" and b: "buildable H S w root"
    and tw: "tree_within w root S" by (auto simp: all_current_def buildable_def)
  have h: "calculate_file_hash p \<noteq> calculate_file_hash q" if "p \<in> S - {q}" for p
    using inj q that by (auto simp: inj_on_def)
  have m: "map_of (tree_of w2 root) (calculate_file_hash p) = map_of (tree_of w root) (calculate_file_hash p)"
    and g: "get_dir w2 root (calculate_file_hash p) = get_dir w root (calculate_file_hash p)"
    and dt: "map_of (data w2) p = map_of (data w) p" if "p \<in> S - {q}" for p
    using h [OF that] that by (simp_all add: tree dat delete_conv' get_dir_def)
  have "buildable H (S - {q}) w2 root"
    using b inj_on_subset [OF inj] m dt by (auto simp: buildable_def slot_free_def)
  moreover have "tree_within w2 root (S - {q})"
  proof -
    have "set (map fst (tree_of w2 root)) = set (map fst (tree_of w root)) - {calculate_file_hash q}"
      by (simp add: tree delete_keys)
    with tw show ?thesis by (auto simp: tree_within_def tree distinct_delete)
  qed
  moreover have "\<forall>p \<in> S - {q}. \<forall>f. map_of (data w2) p = Some f \<longrightarrow> entry_current L w2 root p column f"
    using cur g dt by (simp add: all_current_def entry_current_def)
  ultimately show ?thesis by (simp add: all_current_def)
qed

text \<open>Deleting one file and pruning.\<close>

lemma prune_current:
  assumes "all_current L H S w root column" "indexes w root \<noteq> None" "q \<in> S"
    and w1: "w1 = w\<lparr>data := AList.delete q (data w)\<rparr>"
  shows "\<exists>w2. prune_orphans root w1 = (Inr 1, w2) \<and> all_current L H (S - {q}) w2 root column
    \<and> get_dir w2 root (calculate_file_hash q) = None"
proof -
  from assms(2) obtain t where t: "indexes w root = Some t" by blast
  then have tt: "tree_of w root = t" "indexes w1 root = Some t" "tree_of w1 root = t"
    by (simp_all add: tree_of_def w1)
  have "tree_within w root S" and inj: "inj_on calculate_file_hash S"
    using assms(1) by (auto simp: all_current_def buildable_def)
  then have dist: "distinct (map fst t)" and keys: "set (map fst t) \<subseteq> calculate_file_hash ` S"
    by (simp_all add: tree_within_def tt)
  have orph: "is_orphan w1 en = Inr (h = calculate_file_hash q)" if he: "(h, en) \<in> set t" for h en
  proof -
    from keys he obtain p where p: "p \<in> S" "h = calculate_file_hash p" by force
    have "map_of (tree_of w root) (calculate_file_hash p) = Some en"
      using dist he p(2) by (simp add: tt)
    from is_orphan_current [OF assms(1) p(1) this, of w1 q] have "is_orphan w1 en = Inr (p = q)"
      by (simp add: w1)
    with inj p assms(3) show ?thesis by (auto simp: inj_on_def)
  qed
  have orph': "\<forall>x \<in> set t. \<not> isl (is_orphan w1 (snd x))"
  proof
    fix x assume "x \<in> set t"
    with orph [of "fst x" "snd x"] show "\<not> isl (is_orphan w1 (snd x))" by simp
  qed
  let ?t = "filter (\<lambda>x. is_orphan w1 (snd x) \<noteq> Inr True) t"
  have ft: "?t = filter (\<lambda>x. fst x \<noteq> calculate_file_hash q) t"
    by (rule filter_cong [OF refl]) (auto simp: orph)
  have fo: "filter (\<lambda>x. is_orphan w1 (snd x) = Inr True) t = filter (\<lambda>x. fst x = calculate_file_hash q) t"
    by (rule filter_cong [OF refl]) (auto simp: orph)
  from current_entry [OF assms(1,3)] obtain d
    where "get_dir w root (calculate_file_hash q) = Some d" by metis
  then have "calculate_file_hash q \<in> fst ` set t"
    using tt(1) by (force dest!: get_dir_map_of map_of_SomeD)
  from length_filter_key [OF dist this] have "prune_orphans root w1 = (Inr 1, put_tree root ?t w1)"
    using prune_orphans_correct [OF tt(2) dist orph'] fo by simp
  moreover have "all_current L H (S - {q}) (put_tree root ?t w1) root column"
    unfolding ft by (rule all_current_remove [OF assms(1,3)]) (simp_all add: w1 tt(1) delete_filter)
  moreover have "get_dir (put_tree root ?t w1) root (calculate_file_hash q) = None"
    unfolding ft by (simp add: get_dir_def delete_filter [symmetric] delete_conv')
  ultimately show ?thesis by blast
qed

section \<open>An example\<close>

definition ex_file :: pfile where
  "ex_file = \<lparr>mtime_ns = 5000000001, fsize = 40,
     contents = Inr [Inr [Inr [(''ip'', StringArray [Some ''1.2'', None])]],
                     Inr [Inr [(''ip'', StringArray [Some ''3.4'', Some ''1.2''])], Inr [(''n'', OtherArray)]]]\<rparr>"

definition ex_world :: "string list world" where
  "ex_world = \<lparr>data = [(''d/a.parquet'', ex_file)], indexes = (\<lambda>_. None)\<rparr>"

lemma ex_walk: "walk_parquet ex_world ''d'' = [''d/a.parquet'']"
  by code_simp

lemma row_group_values_Nil: "row_group_values column (Inr []) = {}"
  by (simp add: row_group_values_def)

lemma row_group_values_Cons:
  "row_group_values column (Inr (Inr b # bs)) = batch_values column b \<union> row_group_values column (Inr bs)"
  by (auto simp: row_group_values_def)

lemma ex_batch_values:
  "batch_values ''ip'' [(''ip'', StringArray [Some ''1.2'', None])] = {''1.2''}"
  "batch_values ''ip'' [(''ip'', StringArray [Some ''3.4'', Some ''1.2''])] = {''3.4'', ''1.2''}"
  "batch_values ''ip'' [(''n'', OtherArray)] = {}"
  by (simp_all add: batch_values_def) blast

lemma ex_file_values:
  "row_group_values ''ip'' (Inr [Inr [(''ip'', StringArray [Some ''1.2'', None])]]) = {''1.2''}"
  "row_group_values ''ip'' (Inr [Inr [(''ip'', StringArray [Some ''3.4'', Some ''1.2''])],
    Inr [(''n'', OtherArray)]]) = {''3.4'', ''1.2''}"
  unfolding row_group_values_Cons row_group_values_Nil ex_batch_values by simp_all

lemma pairs_of_two:
  "{(v, n). n < length [a, b] \<and> v \<in> F ([a, b] ! n)} = (\<lambda>v. (v, 0)) ` F a \<union> (\<lambda>v. (v, 1)) ` F b"
  by (auto simp: less_Suc_eq)

lemma ex_file_pairs: "file_pairs ''ip'' ex_file = {(''1.2'', 0), (''3.4'', 1), (''1.2'', 1)}"
proof -
  have "file_pairs ''ip'' ex_file =
    (\<lambda>v. (v, 0)) ` {''1.2''} \<union> (\<lambda>v. (v, 1)) ` {''3.4'', ''1.2''}"
    unfolding file_pairs_def ex_file_def pfile.simps sum.case pairs_of_two ex_file_values ..
  then show ?thesis by auto
qed

lemma ex_file_good: "good_file ex_file"
  by (simp add: good_file_def ex_file_def usize_bound_def)

lemma ex_path_ok: "path_ok ''d/a.parquet''"
  by code_simp

lemma ex_files_ok: "files_ok ex_world ''d''"
  using ex_file_good ex_path_ok by (simp add: files_ok_def ex_walk) (simp add: ex_world_def)

lemma ex_ready:
  "build_ready list_fst (current_versions ex_world) ex_world ''d'' ''pdq-index'' ''ip''"
  by (rule build_ready_fresh [OF ex_files_ok]) (simp add: ex_world_def)

lemma ex_history: "index_history list_fst ''d'' ''pdq-index'' ''ip'' (current_versions ex_world) ex_world"
  by (rule index_history.start [OF ex_files_ok]) (simp add: ex_world_def)

lemma ex_stat: "stat_determines (current_versions ex_world)"
  by (auto simp: stat_determines_def current_versions_def)

lemma ex_data: "map_of (data ex_world) p = (if p = ''d/a.parquet'' then Some ex_file else None)"
  by (simp add: ex_world_def)

lemma ex_prefix: "searchable_prefix ''1.''"
  by code_simp

lemma ex_slot: "slot_free ex_world root p"
  by (simp add: slot_free_def ex_world_def tree_of_def)

text \<open>A root whose file has an stale FST of column \<open>ip\<close> holds no value.\<close>

definition ex_indexed :: "string list world" where
  "ex_indexed = ex_world\<lparr>indexes := [''pdq-index'' \<mapsto>
     [(calculate_file_hash ''d/a.parquet'', IdxDir \<lparr>meta = None, fsts = [(''ip.fst'', Complete [])]\<rparr>)]]\<rparr>"

end
