(* ===== verification/Search_Properties.thy ===== *)
theory Search_Properties
  imports Index_Query
begin

text \<open>
  What a user of the index may rely on: after any succession of builds and file changes, a build
  followed by a search answers for the files as they are.
\<close>

section \<open>Searching after a build\<close>



text \<open>
  C2. After a build, when the indexed values are free of NUL, an exact search that returns no
  file proves that no walked file contains the value in the column, and one that returns a file
  proves that some file contains it.
\<close>

theorem absence_is_authoritative:
  assumes "fst_ok L" "index_history L dir root column H w" "stat_determines H"
    and plain: "plain_files w dir column"
  shows "\<exists>w'. build_index L root w dir column = (Inr (), w')
    \<and> (\<forall>t. \<exists>ms e'. exact_search L w' (engine_new w' root) column t = (Inr ms, e')
         \<and> (ms = [] \<longleftrightarrow> \<not> (\<exists>p \<in> set (walk_parquet w dir). \<exists>f n.
              map_of (data w) p = Some f \<and> (t, n) \<in> file_pairs column f)))"
proof -
  let ?S = "set (walk_parquet w dir)"
  from history_built [OF assms(1-3)] obtain w' where w': "build_index L root w dir column = (Inr (), w')"
    "data w' = data w" "all_current L H ?S w' root column" by metis
  have "\<exists>ms e'. exact_search L w' (engine_new w' root) column t = (Inr ms, e')
     \<and> (ms = [] \<longleftrightarrow> \<not> (\<exists>p \<in> ?S. \<exists>f n. map_of (data w) p = Some f \<and> (t, n) \<in> file_pairs column f))" for t
  proof -
    from exact_search_current [OF w'(3) opened_on_new, of t] obtain ms e' where
      ms: "exact_search L w' (engine_new w' root) column t = (Inr ms, e')"
        "answers w' ?S column (exact_hit t) ms" by blast
    have "(v, n) \<in> file_pairs column f \<Longrightarrow> exact_hit t v \<longleftrightarrow> v = t"
      if "p \<in> ?S" "map_of (data w) p = Some f" for p f v n
      using plain that unfolding plain_files_def by (fastforce simp: plain_values_def exact_hit_no_NUL)
    then have "(\<exists>p \<in> ?S. \<exists>f v n. map_of (data w) p = Some f \<and> (v, n) \<in> file_pairs column f \<and> exact_hit t v)
      \<longleftrightarrow> (\<exists>p \<in> ?S. \<exists>f n. map_of (data w) p = Some f \<and> (t, n) \<in> file_pairs column f)" by blast
    with answers_empty_iff [OF w'(3) ms(2)] ms(1) show ?thesis unfolding w'(2) by blast
  qed
  with w'(1) show ?thesis by blast
qed

theorem absence_is_authoritative_witness:
  "\<exists>w'. build_index list_fst ''pdq-index'' ex_world ''d'' ''ip'' = (Inr (), w')
    \<and> (\<forall>t. \<exists>ms e'. exact_search list_fst w' (engine_new w' ''pdq-index'') ''ip'' t = (Inr ms, e')
         \<and> (ms = [] \<longleftrightarrow> t \<noteq> ''1.2'' \<and> t \<noteq> ''3.4''))"
proof -
  have "plain_files ex_world ''d'' ''ip''"
    by (auto simp: plain_files_def ex_data plain_values_def ex_file_pairs split: if_splits)
  note r = absence_is_authoritative [OF list_fst_ok ex_history ex_stat this]
  have eq: "(\<exists>p \<in> set (walk_parquet ex_world ''d''). \<exists>f n. map_of (data ex_world) p = Some f
    \<and> (t, n) \<in> file_pairs ''ip'' f) \<longleftrightarrow> \<not> (t \<noteq> ''1.2'' \<and> t \<noteq> ''3.4'')" for t
    by (auto simp: ex_walk ex_data ex_file_pairs)
  from r show ?thesis unfolding eq by simp
qed

text \<open>
  C3. After a build, a prefix search for a valid prefix (UTF-8, not empty, free of NUL, not
  ending in U+10FFFF) reports exactly the files and row groups with a value that begins with the
  prefix.
\<close>

theorem prefix_search_after_builds:
  assumes "fst_ok L" "index_history L dir root column H w" "stat_determines H" "searchable_prefix p"
  shows "\<exists>w' ms e'. build_index L root w dir column = (Inr (), w')
    \<and> prefix_search L w' (engine_new w' root) column p = (Inr ms, e')
    \<and> answers w (set (walk_parquet w dir)) column (Sublist.prefix p) ms"
proof -
  from history_built [OF assms(1-3)] obtain w' where w': "build_index L root w dir column = (Inr (), w')"
    "data w' = data w" "all_current L H (set (walk_parquet w dir)) w' root column" by metis
  from prefix_search_current [OF w'(3) opened_on_new assms(4)] w'(1) show ?thesis
    unfolding answers_data [OF w'(2)] by blast
qed

theorem prefix_search_after_builds_witness:
  "\<exists>w' ms e'. build_index list_fst ''pdq-index'' ex_world ''d'' ''ip'' = (Inr (), w')
    \<and> prefix_search list_fst w' (engine_new w' ''pdq-index'') ''ip'' ''1.'' = (Inr ms, e')
    \<and> answers ex_world {''d/a.parquet''} ''ip'' (Sublist.prefix ''1.'') ms"
  using prefix_search_after_builds [OF list_fst_ok ex_history ex_stat ex_prefix] by (simp add: ex_walk)

text \<open>
  C4. After a build, a range search with bounds free of NUL reports exactly the files and row
  groups with a value between the bounds inclusive (or one that continues the upper bound after a
  NUL).
\<close>

theorem range_search_after_builds:
  assumes "fst_ok L" "index_history L dir root column H w" "stat_determines H"
    "CHR 0x00 \<notin> set a" "CHR 0x00 \<notin> set b"
  shows "\<exists>w' ms e'. build_index L root w dir column = (Inr (), w')
    \<and> range_search L w' (engine_new w' root) column a b = (Inr ms, e')
    \<and> answers w (set (walk_parquet w dir)) column
        (\<lambda>v. a \<le> v \<and> (v \<le> b \<or> Sublist.prefix (b @ [CHR 0x00]) v)) ms"
proof -
  have hit: "(\<lambda>v. a \<le> v \<and> (v \<le> b \<or> Sublist.prefix (b @ [CHR 0x00]) v)) = range_hit a b"
    by (simp add: range_hit_def fun_eq_iff)
  from history_built [OF assms(1-3)] obtain w' where w': "build_index L root w dir column = (Inr (), w')"
    "data w' = data w" "all_current L H (set (walk_parquet w dir)) w' root column" by metis
  from range_search_current [OF w'(3) opened_on_new assms(4,5)] w'(1) show ?thesis
    unfolding answers_data [OF w'(2)] hit by blast
qed

theorem range_search_after_builds_witness:
  "\<exists>w' ms e'. build_index list_fst ''pdq-index'' ex_world ''d'' ''ip'' = (Inr (), w')
    \<and> range_search list_fst w' (engine_new w' ''pdq-index'') ''ip'' ''1'' ''2'' = (Inr ms, e')
    \<and> answers ex_world {''d/a.parquet''} ''ip''
        (\<lambda>v. ''1'' \<le> v \<and> (v \<le> ''2'' \<or> Sublist.prefix (''2'' @ [CHR 0x00]) v)) ms"
  using range_search_after_builds [OF list_fst_ok ex_history ex_stat, of "''1''" "''2''"]
  by (simp add: ex_walk)

text \<open>
  C5. After a build, exact_search_multi returns the sum over the terms of the number of files an
  exact search for the term reports, duplicates in the watchlist counted each time.
\<close>

theorem search_multi_counts_matches:
  assumes "fst_ok L" "index_history L dir root column H w" "stat_determines H"
  shows "\<exists>w'. build_index L root w dir column = (Inr (), w')
    \<and> (\<forall>terms. \<exists>e'. exact_search_multi L w' (engine_new w' root) column terms =
         (Inr (\<Sum>t \<leftarrow> terms. card {p \<in> set (walk_parquet w dir).
            \<exists>f v n. map_of (data w) p = Some f \<and> (v, n) \<in> file_pairs column f \<and> exact_hit t v}), e'))"
proof -
  from history_built [OF assms] obtain w' where w': "build_index L root w dir column = (Inr (), w')"
    "data w' = data w" "all_current L H (set (walk_parquet w dir)) w' root column" by metis
  from exact_search_multi_current [OF w'(3) opened_on_new] w'(1) show ?thesis
    unfolding w'(2) by blast
qed

theorem search_multi_counts_matches_witness:
  "\<exists>w'. build_index list_fst ''pdq-index'' ex_world ''d'' ''ip'' = (Inr (), w')
    \<and> (\<exists>e'. exact_search_multi list_fst w' (engine_new w' ''pdq-index'') ''ip'' [''1.2'', ''x'', ''3.4'', ''1.2'']
         = (Inr 3, e'))"
proof -
  have eq: "{p \<in> set (walk_parquet ex_world ''d''). \<exists>f v n. map_of (data ex_world) p = Some f
      \<and> (v, n) \<in> file_pairs ''ip'' f \<and> exact_hit t v} =
    (if exact_hit t ''1.2'' \<or> exact_hit t ''3.4'' then {''d/a.parquet''} else {})" for t
    by (auto simp: ex_walk ex_data ex_file_pairs)
  from search_multi_counts_matches [OF list_fst_ok ex_history ex_stat] obtain w'
    where w': "build_index list_fst ''pdq-index'' ex_world ''d'' ''ip'' = (Inr (), w')"
      "\<forall>terms. \<exists>e'. exact_search_multi list_fst w' (engine_new w' ''pdq-index'') ''ip'' terms =
         (Inr (\<Sum>t \<leftarrow> terms. card (if exact_hit t ''1.2'' \<or> exact_hit t ''3.4'' then {''d/a.parquet''} else {})), e')"
    unfolding eq by blast
  from w'(2) [THEN spec, of "[''1.2'', ''x'', ''3.4'', ''1.2'']"] w'(1) show ?thesis
    by (simp add: exact_hit_def eval_nat_numeral)
qed



section \<open>Keys\<close>

text \<open>
  C38. The row group number read from an index key is the one the indexer wrote, for every value
  (NUL bytes included) and every number below 2^64.
\<close>

theorem key_round_trip:
  assumes "n < usize_bound"
  shows "parse_row_group_from_key (make_key v n) = Inr (Some n)"
  using assms by (rule parse_make_key)

theorem key_round_trip_witness: "parse_row_group_from_key (make_key [CHR ''a'', CHR 0x00] 12) = Inr (Some 12)"
  by (rule key_round_trip) (simp add: usize_bound_def)

text \<open>A key yields row group n exactly when after its last NUL come the bytes rg and valid UTF-8
  digits that parse to n.\<close>

theorem parse_key_iff:
  "parse_row_group_from_key key = Inr (Some n) \<longleftrightarrow>
     (\<exists>v digits. key = v @ CHR 0x00 # ''rg'' @ digits \<and> CHR 0x00 \<notin> set digits
        \<and> utf8_valid digits \<and> parse_usize digits = Inr n)"
proof
  assume p: "parse_row_group_from_key key = Inr (Some n)"
  have "CHR 0x00 \<in> set key"
  proof (rule ccontr)
    assume "CHR 0x00 \<notin> set key"
    then have "\<forall>x \<in> set key. x \<noteq> CHR 0x00" by blast
    then have "rposition (\<lambda>b. b = CHR 0x00) key = None" by (simp add: rposition_def position_None_iff)
    with p show False by (simp add: parse_row_group_from_key_def VALUE_RG_SEPARATOR_def)
  qed
  then obtain v suffix where key: "key = v @ CHR 0x00 # suffix" "CHR 0x00 \<notin> set suffix"
    by (meson split_list_last)
  then have "rposition (\<lambda>b. b = CHR 0x00) key = Some (length v)" by (auto intro: rposition_last)
  with p key show "\<exists>v digits. key = v @ CHR 0x00 # ''rg'' @ digits \<and> CHR 0x00 \<notin> set digits
      \<and> utf8_valid digits \<and> parse_usize digits = Inr n"
    by (auto simp: parse_row_group_from_key_def key_format_defs prefix_def Let_def split: if_splits sum.splits)
next
  assume "\<exists>v digits. key = v @ CHR 0x00 # ''rg'' @ digits \<and> CHR 0x00 \<notin> set digits
      \<and> utf8_valid digits \<and> parse_usize digits = Inr n"
  then obtain v digits where key: "key = v @ CHR 0x00 # ''rg'' @ digits" "CHR 0x00 \<notin> set digits"
    "utf8_valid digits" "parse_usize digits = Inr n" by blast
  then have "rposition (\<lambda>b. b = CHR 0x00) key = Some (length v)" by (auto intro!: rposition_last)
  with key show "parse_row_group_from_key key = Inr (Some n)"
    by (simp add: parse_row_group_from_key_def key_format_defs)
qed

section \<open>Values and prefixes the searches treat specially\<close>

text \<open>
  C39. Exact search for a term, and the watchlist probe, report a row group whose value continues
  the term after a NUL byte although the term itself occurs nowhere.
\<close>

theorem embedded_NUL_false_positive:
  assumes "set_indexes L s P" "(t @ CHR 0x00 # rest, n) \<in> P" "\<forall>m. (t, m) \<notin> P"
  shows "\<exists>rgs. search_set L t s = Inr rgs \<and> n \<in> set rgs \<and> set_has_term L s t"
proof -
  have "\<forall>(v, n) \<in> P. n < usize_bound" using assms(1) by (rule set_indexesE)
  from set_hit_row_groups [OF this, of "exact_hit t"] exact.search_hits [OF TrueI assms(1), of t]
    set_has_term_iff [OF assms(1), of t] assms(2)
  show ?thesis by (auto simp: exact_hit_def)
qed

theorem embedded_NUL_false_positive_witness:
  "\<exists>rgs. search_set list_fst ''a'' [make_key [CHR ''a'', CHR 0x00, CHR ''b''] 3] = Inr rgs \<and> 3 \<in> set rgs
     \<and> set_has_term list_fst [make_key [CHR ''a'', CHR 0x00, CHR ''b''] 3] ''a''"
proof -
  have "set_indexes list_fst [make_key (''a'' @ CHR 0x00 # ''b'') 3] {(''a'' @ CHR 0x00 # ''b'', 3)}"
    by (rule list_fst_indexes) (simp_all add: usize_bound_def)
  from embedded_NUL_false_positive [OF this, of "''a''" "''b''" 3] show ?thesis by simp
qed

text \<open>
  C40. A prefix search whose prefix ends in U+10FFFF finds no row group on any index, whatever
  values begin with the prefix.
\<close>

theorem prefix_ending_in_last_character_finds_nothing:
  assumes "set_indexes L s P" "utf8_valid p" "p \<noteq> []" "last (str_chars p) = MAX_UNICODE_CHAR"
  shows "prefix_search_set L p s = Inr []"
  unfolding prefix_search_set_def prefix_end_key_max [OF assms(2-4)] search_indexed [OF assms(1)]
proof -
  have "{n. \<exists>v. (v, n) \<in> P \<and> start_key p \<le> make_key v n \<and> make_key v n < start_key p
    \<and> key_matches_prefix p (make_key v n)} = {}" using leD by blast
  then show "Inr (sorted_list_of_set {n. \<exists>v. (v, n) \<in> P \<and> start_key p \<le> make_key v n
    \<and> make_key v n < start_key p \<and> key_matches_prefix p (make_key v n)}) = (Inr [] :: pdq_error + nat list)"
    by (simp only: sorted_list_of_set_empty)
qed

theorem prefix_ending_in_last_character_finds_nothing_witness:
  "prefix_search_set list_fst (utf8_encode 0x10FFFF) [make_key (utf8_encode 0x10FFFF) 0] = Inr []
     \<and> Sublist.prefix (utf8_encode 0x10FFFF) (utf8_encode 0x10FFFF)"
proof -
  have "set_indexes list_fst [make_key (utf8_encode 0x10FFFF) 0] {(utf8_encode 0x10FFFF, 0)}"
    by (rule list_fst_indexes) (simp_all add: usize_bound_def)
  moreover have "utf8_valid (utf8_encode 0x10FFFF)"
    "last (str_chars (utf8_encode 0x10FFFF)) = MAX_UNICODE_CHAR" by code_simp+
  ultimately show ?thesis
    using prefix_ending_in_last_character_finds_nothing [of list_fst "[make_key (utf8_encode 0x10FFFF) 0]"] by simp
qed

text \<open>The prefix search with the empty prefix finds only the row groups with an empty value or a
  value that begins with NUL, although every value begins with the empty prefix.\<close>

theorem empty_prefix_search:
  assumes "set_indexes L s P"
  shows "prefix_search_set L [] s = Inr (hit_row_groups (\<lambda>v. v = [] \<or> hd v = CHR 0x00) P)"
proof -
  have "start_key [] \<le> make_key v n \<and> make_key v n < prefix_end_key [] \<and> key_matches_prefix [] (make_key v n)
    \<longleftrightarrow> v = [] \<or> hd v = CHR 0x00" for v n
  proof -
    have "start_key [] \<le> make_key v n \<and> make_key v n < prefix_end_key []
        \<longleftrightarrow> prefix [CHR 0x00] (make_key v n)"
      using exact_range_prefix [of "[]" "make_key v n"]
      by (simp add: start_key_def prefix_end_key_def key_format_defs)
    also have "\<dots> \<longleftrightarrow> v = [] \<or> hd v = CHR 0x00"
      by (cases v) (auto simp: make_key_eq)
    finally show ?thesis by (simp add: key_matches_prefix_iff)
  qed
  then show ?thesis unfolding prefix_search_set_def search_indexed [OF assms] hit_row_groups_def by simp
qed

theorem empty_prefix_search_witness:
  "prefix_search_set list_fst [] [make_key [] 0, make_key ''a'' 1] = Inr [0]"
proof -
  have "set_indexes list_fst [make_key [] 0, make_key ''a'' 1] {([], 0), (''a'', 1)}"
    by (rule list_fst_indexes) (simp_all add: usize_bound_def)
  from empty_prefix_search [OF this] show ?thesis
    by (simp add: hit_row_groups_def conj_disj_distribR ex_disj_distrib)
qed



text \<open>
  C23. After a build the engine lists exactly the hashes of the walked files, reports the column
  among each file's indexed columns in sorted order, and resolves each hash back to its path.
\<close>

theorem listings_after_build:
  fixes L :: "('b, 'f, 's) fst_lib"
  assumes "fst_ok L" "index_history L dir root column H w" "stat_determines H" "column \<noteq> []"
  shows "\<exists>w' (e :: 's engine). build_index L root w dir column = (Inr (), w') \<and> e = engine_new w' root
    \<and> set (list_indexed_files w' e) = calculate_file_hash ` set (walk_parquet w dir)
    \<and> (\<forall>p \<in> set (walk_parquet w dir).
         (\<exists>cols. get_available_columns w' e (calculate_file_hash p) = Inr cols
            \<and> column \<in> set cols \<and> sorted cols)
         \<and> map_of (resolve_file_paths w' (list_indexed_files w' e) dir)
             (calculate_file_hash p) = Some p)"
proof -
  let ?S = "set (walk_parquet w dir)"
  from history_built [OF assms(1-3)] obtain w' where w': "build_index L root w dir column = (Inr (), w')"
    "walk_parquet w' dir = walk_parquet w dir" "all_current L H ?S w' root column" by metis
  let ?e = "engine_new w' root :: 's engine"
  have inj: "inj_on calculate_file_hash ?S" and tw: "tree_within w' root ?S"
    using w'(3) by (auto simp: all_current_def buildable_def)
  have entry: "\<exists>d. map_of (tree_of w' root) (calculate_file_hash p) = Some (IdxDir d)
      \<and> fst_name column \<in> set (map fst (fsts d))" if p: "p \<in> ?S" for p
  proof -
    from current_entry [OF w'(3) p] obtain d ff where "get_dir w' root (calculate_file_hash p) = Some d"
      "map_of (fsts d) (fst_name column) = Some (Complete ff)" by metis
    then show ?thesis by (force dest: get_dir_map_of map_of_SomeD)
  qed
  have list: "set (list_indexed_files w' ?e) = calculate_file_hash ` ?S"
  proof
    show "set (list_indexed_files w' ?e) \<subseteq> calculate_file_hash ` ?S"
      using tw by (force simp: list_indexed_files_def tree_within_def)
    show "calculate_file_hash ` ?S \<subseteq> set (list_indexed_files w' ?e)"
    proof (rule image_subsetI)
      fix p assume "p \<in> ?S"
      from entry [OF this] obtain d where "(calculate_file_hash p, IdxDir d) \<in> set (tree_of w' root)"
        by (auto dest: map_of_SomeD)
      then show "calculate_file_hash p \<in> set (list_indexed_files w' ?e)"
        by (force simp: list_indexed_files_def)
    qed
  qed
  have "\<exists>cols. get_available_columns w' ?e (calculate_file_hash p) = Inr cols
      \<and> column \<in> set cols \<and> sorted cols" if "p \<in> ?S" for p
    using entry [OF that] fst_name_parts [OF assms(4)]
    by (force simp: get_available_columns_def)
  moreover have "map_of (resolve_file_paths w' (list_indexed_files w' ?e) dir)
      (calculate_file_hash p) = Some p" if "p \<in> ?S" for p
    unfolding resolve_file_paths_def w'(2) resolve_fold [OF inj that order_refl]
    using that list by simp
  ultimately show ?thesis using w'(1) list by blast
qed

theorem listings_after_build_witness:
  "\<exists>w' (e :: string list engine). build_index list_fst ''pdq-index'' ex_world ''d'' ''ip'' = (Inr (), w')
    \<and> e = engine_new w' ''pdq-index''
    \<and> set (list_indexed_files w' e) = {calculate_file_hash ''d/a.parquet''}
    \<and> (\<exists>cols. get_available_columns w' e (calculate_file_hash ''d/a.parquet'') = Inr cols \<and> ''ip'' \<in> set cols)
    \<and> map_of (resolve_file_paths w' (list_indexed_files w' e) ''d'') (calculate_file_hash ''d/a.parquet'')
        = Some ''d/a.parquet''"
  using listings_after_build [OF list_fst_ok ex_history ex_stat] unfolding ex_walk by auto



end
