(* ===== verification/Task_Pool.thy ===== *)
theory Task_Pool
  imports Prelude
begin

text \<open>
  Tasks that run concurrently on shared state: the rayon tasks of a search and the futures that
  look up a footer.  A state is the shared part with the list of tasks; a step moves one task.

  The locale \<open>task_pool\<close> has what such a step relation owes its users: \<open>left t\<close> bounds the steps
  task \<open>t\<close> still takes, and a task with steps left can take one whatever the others do.  Then every
  run ends, within the sum of the bounds, and it ends only when all tasks are through.
\<close>

definition total_left :: "('t \<Rightarrow> nat) \<Rightarrow> 't list \<Rightarrow> nat" where
  "total_left left ts = sum_list (map left ts)"

lemma total_left_update:
  "i < length ts \<Longrightarrow> left t < left (ts ! i) \<Longrightarrow> total_left left (ts[i := t]) < total_left left ts"
  unfolding total_left_def
proof (induction ts arbitrary: i)
  case (Cons x ts)
  then show ?case by (cases i) auto
qed simp

lemma total_left_bound: "(\<And>t. t \<in> set ts \<Longrightarrow> left t \<le> b) \<Longrightarrow> total_left left ts \<le> b * length ts"
proof (induction ts)
  case (Cons t ts)
  then have "left t \<le> b" "total_left left ts \<le> b * length ts" by auto
  then show ?case by (simp add: total_left_def)
qed (simp add: total_left_def)

locale task_pool =
  fixes step :: "'c \<times> 't list \<Rightarrow> 'c \<times> 't list \<Rightarrow> bool"
    and left :: "'t \<Rightarrow> nat"
  assumes moves_one: "step (c, ts) (c', ts') \<Longrightarrow>
      \<exists>i < length ts. \<exists>t. ts' = ts[i := t] \<and> left t < left (ts ! i)"
    and can_step: "i < length ts \<Longrightarrow> 0 < left (ts ! i) \<Longrightarrow> \<exists>s'. step (c, ts) s'"
begin

lemma step_decreases: "step s s' \<Longrightarrow> total_left left (snd s') < total_left left (snd s)"
  using moves_one [of "fst s" "snd s" "fst s'" "snd s'"] total_left_update by fastforce

lemma step_length: "step s s' \<Longrightarrow> length (snd s') = length (snd s)"
  using moves_one [of "fst s" "snd s" "fst s'" "snd s'"] by fastforce

lemma run_length: "step\<^sup>*\<^sup>* s s' \<Longrightarrow> length (snd s') = length (snd s)"
  by (induction rule: rtranclp_induct) (auto dest: step_length)

lemma steps_bound: "(step ^^ n) s s' \<Longrightarrow> n + total_left left (snd s') \<le> total_left left (snd s)"
proof (induction n arbitrary: s')
  case (Suc n)
  then obtain t where "(step ^^ n) s t" "step t s'" by auto
  with Suc.IH [of t] step_decreases [of t s'] show ?case by simp
qed simp

lemma stuck_iff: "(\<nexists>s'. step (c, ts) s') \<longleftrightarrow> (\<forall>t \<in> set ts. left t = 0)"
proof
  assume "\<nexists>s'. step (c, ts) s'"
  with can_step show "\<forall>t \<in> set ts. left t = 0" by (metis in_set_conv_nth neq0_conv)
next
  assume "\<forall>t \<in> set ts. left t = 0"
  then have "total_left left ts = 0" by (simp add: total_left_def)
  with step_decreases [of "(c, ts)"] show "\<nexists>s'. step (c, ts) s'" by auto
qed

text \<open>Every run can be continued to one in which all tasks are through.\<close>

lemma run_ends: "\<exists>s'. step\<^sup>*\<^sup>* s s' \<and> (\<forall>t \<in> set (snd s'). left t = 0)"
proof (induction "total_left left (snd s)" arbitrary: s rule: less_induct)
  case less
  show ?case
  proof (cases "\<forall>t \<in> set (snd s). left t = 0")
    case False
    with stuck_iff [of "fst s" "snd s"] obtain s1 where s1: "step s s1" by auto
    from less [OF step_decreases [OF s1]] obtain s' where "step\<^sup>*\<^sup>* s1 s'"
      "\<forall>t \<in> set (snd s'). left t = 0" by blast
    with s1 show ?thesis by (meson converse_rtranclp_into_rtranclp)
  qed blast
qed

end

end
