(* ===== verification/Parallel_Search.thy ===== *)
theory Parallel_Search
  imports Query_Engine Task_Pool
begin

text \<open>
  The parallel searches of the query engine (\<open>src/query.rs\<close>).  \<open>search_all\<close> and
  \<open>exact_search_multi\<close> run one task per indexed file on rayon's pool, and engines that share a cache
  may run several such calls at once.  A task takes the read lock to look for a resident FST, opens
  and maps the file without a lock, publishes under the write lock (\<open>or_insert\<close> keeps the first
  winner), and searches.  The step relation \<open>pool_step\<close> interleaves the tasks at these points.

  A mapped FST carries the number of its mapping, so that two mappings of one file differ.  The
  files do not change while the searches run; loading is the parameter \<open>load\<close>.
\<close>

section \<open>Jobs\<close>

text \<open>One closure of a parallel iterator, and the value it gives when the file has no FST.\<close>

record ('s, 'r) job =
  call :: nat
  job_hash :: string
  job_column :: column
  work :: "'s \<Rightarrow> pdq_error + 'r"
  absent :: 'r

definition search_work ::
  "('s \<Rightarrow> pdq_error + nat list) \<Rightarrow> string \<Rightarrow> 's \<Rightarrow> pdq_error + (string \<times> nat list) option" where
  "search_work search file_hash s =
     (case search s of
        Inl e \<Rightarrow> Inl e
      | Inr rgs \<Rightarrow> Inr (if rgs = [] then None else Some (file_hash, rgs)))"

definition search_jobs ::
  "nat \<Rightarrow> 's engine \<Rightarrow> column \<Rightarrow> ('s \<Rightarrow> pdq_error + nat list)
   \<Rightarrow> ('s, (string \<times> nat list) option) job list" where
  "search_jobs k e column search =
     map (\<lambda>h. \<lparr>call = k, job_hash = h, job_column = column, work = search_work search h, absent = None\<rparr>)
       (map fst (file_map e))"

text \<open>The results, flattened and resolved to paths.\<close>

definition search_collect ::
  "'s engine \<Rightarrow> pdq_error + (string \<times> nat list) option list \<Rightarrow> pdq_error + file_matches list" where
  "search_collect e out =
     (case out of Inl er \<Rightarrow> Inl er | Inr rs \<Rightarrow> Inr (map (resolve_match e) (map the (filter (\<lambda>r. r \<noteq> None) rs))))"

definition multi_jobs ::
  "('b, 'f, 's) fst_lib \<Rightarrow> nat \<Rightarrow> 's engine \<Rightarrow> column \<Rightarrow> string list \<Rightarrow> ('s, nat) job list" where
  "multi_jobs L k e column terms =
     map (\<lambda>h. \<lparr>call = k, job_hash = h, job_column = column,
               work = (\<lambda>s. Inr (length (filter (set_has_term L s) terms))), absent = 0\<rparr>)
       (map fst (file_map e))"

definition multi_collect :: "pdq_error + nat list \<Rightarrow> pdq_error + nat" where
  "multi_collect out = (case out of Inl er \<Rightarrow> Inl er | Inr counts \<Rightarrow> Inr (sum_list counts))"

section \<open>Steps\<close>

type_synonym 's mapping_of = "nat \<times> 's"

record 's mappings =
  next_mapping :: nat
  resident_sets :: "string \<times> column \<Rightarrow> 's mapping_of option"

text \<open>Where a task stands, with what its closure holds by then.\<close>

datatype ('s, 'r) progress =
    Queued
  | Opening
  | Opened "'s mapping_of"
  | Resident "'s mapping_of"
  | NoIndex
  | Answered "'s mapping_of" 'r
  | Broke pdq_error
  | Dropped

text \<open>\<open>cache.entry(key).or_insert(set)\<close>.\<close>

definition or_insert :: "'k \<Rightarrow> 'v \<Rightarrow> ('k \<Rightarrow> 'v option) \<Rightarrow> 'v \<times> ('k \<Rightarrow> 'v option)" where
  "or_insert key v m = (case m key of Some u \<Rightarrow> (u, m) | None \<Rightarrow> (v, m(key \<mapsto> v)))"

abbreviation job_key :: "('s, 'r) job \<Rightarrow> string \<times> column" where
  "job_key j \<equiv> (job_hash j, job_column j)"

text \<open>
  Once a task of a call has failed, the call's tasks that have not started may be dropped: that is
  how rayon collects into a \<open>Result\<close>.
\<close>

inductive pool_step ::
  "(string \<times> column \<Rightarrow> pdq_error + 's option)
   \<Rightarrow> 's mappings \<times> (('s, 'r) job \<times> ('s, 'r) progress) list
   \<Rightarrow> 's mappings \<times> (('s, 'r) job \<times> ('s, 'r) progress) list \<Rightarrow> bool"
  for load where
  fast_path: "i < length ts \<Longrightarrow> ts ! i = (j, Queued) \<Longrightarrow> resident_sets m (job_key j) = Some a \<Longrightarrow>
    pool_step load (m, ts) (m, ts[i := (j, Resident a)])"
| slow_path: "i < length ts \<Longrightarrow> ts ! i = (j, Queued) \<Longrightarrow> resident_sets m (job_key j) = None \<Longrightarrow>
    pool_step load (m, ts) (m, ts[i := (j, Opening)])"
| open_missing: "i < length ts \<Longrightarrow> ts ! i = (j, Opening) \<Longrightarrow> load (job_key j) = Inr None \<Longrightarrow>
    pool_step load (m, ts) (m, ts[i := (j, NoIndex)])"
| open_error: "i < length ts \<Longrightarrow> ts ! i = (j, Opening) \<Longrightarrow> load (job_key j) = Inl e \<Longrightarrow>
    pool_step load (m, ts) (m, ts[i := (j, Broke e)])"
| open_mmap: "i < length ts \<Longrightarrow> ts ! i = (j, Opening) \<Longrightarrow> load (job_key j) = Inr (Some s) \<Longrightarrow>
    pool_step load (m, ts)
      (m\<lparr>next_mapping := Suc (next_mapping m)\<rparr>, ts[i := (j, Opened (next_mapping m, s))])"
| publish_set: "i < length ts \<Longrightarrow> ts ! i = (j, Opened a) \<Longrightarrow>
    or_insert (job_key j) a (resident_sets m) = (u, c) \<Longrightarrow>
    pool_step load (m, ts) (m\<lparr>resident_sets := c\<rparr>, ts[i := (j, Resident u)])"
| work_done: "i < length ts \<Longrightarrow> ts ! i = (j, Resident a) \<Longrightarrow> work j (snd a) = Inr r \<Longrightarrow>
    pool_step load (m, ts) (m, ts[i := (j, Answered a r)])"
| work_error: "i < length ts \<Longrightarrow> ts ! i = (j, Resident a) \<Longrightarrow> work j (snd a) = Inl e \<Longrightarrow>
    pool_step load (m, ts) (m, ts[i := (j, Broke e)])"
| drop_task: "i < length ts \<Longrightarrow> ts ! i = (j, Queued) \<Longrightarrow> (j', Broke e) \<in> set ts \<Longrightarrow> call j' = call j \<Longrightarrow>
    pool_step load (m, ts) (m, ts[i := (j, Dropped)])"

inductive_cases pool_stepE: "pool_step load (m, ts) s'"

abbreviation pool_run where
  "pool_run load \<equiv> (pool_step load)\<^sup>*\<^sup>*"

definition enqueue :: "('s, 'r) job list \<Rightarrow> (('s, 'r) job \<times> ('s, 'r) progress) list" where
  "enqueue js = map (\<lambda>j. (j, Queued)) js"

section \<open>What a call returns\<close>

definition task_value :: "('s, 'r) job \<times> ('s, 'r) progress \<Rightarrow> 'r" where
  "task_value t = (case snd t of Answered a r \<Rightarrow> r | _ \<Rightarrow> absent (fst t))"

text \<open>
  \<open>collect::<Result<Vec<_>>>\<close>: an error of some task of the call, or the values in the order of the
  files.
\<close>

definition call_returns ::
  "nat \<Rightarrow> (('s, 'r) job \<times> ('s, 'r) progress) list \<Rightarrow> pdq_error + 'r list \<Rightarrow> bool" where
  "call_returns k ts out \<longleftrightarrow>
     (let mine = filter (\<lambda>t. call (fst t) = k) ts in
      case out of
        Inl e \<Rightarrow> Broke e \<in> snd ` set mine
      | Inr rs \<Rightarrow> (\<forall>e. Broke e \<notin> snd ` set mine) \<and> rs = map task_value mine)"

text \<open>What one job gives, and a call run file after file.\<close>

definition job_result ::
  "(string \<times> column \<Rightarrow> pdq_error + 's option) \<Rightarrow> ('s, 'r) job \<Rightarrow> pdq_error + 'r" where
  "job_result load j =
     (case load (job_key j) of
        Inl e \<Rightarrow> Inl e
      | Inr None \<Rightarrow> Inr (absent j)
      | Inr (Some s) \<Rightarrow> work j s)"

fun run_in_order ::
  "(string \<times> column \<Rightarrow> pdq_error + 's option) \<Rightarrow> ('s, 'r) job list \<Rightarrow> pdq_error + 'r list" where
  "run_in_order load [] = Inr []"
| "run_in_order load (j # js) =
     (case job_result load j of
        Inl e \<Rightarrow> Inl e
      | Inr r \<Rightarrow> (case run_in_order load js of Inl e \<Rightarrow> Inl e | Inr rs \<Rightarrow> Inr (r # rs)))"

lemma run_in_order_Inr:
  "run_in_order load js = Inr rs \<longleftrightarrow> list_all2 (\<lambda>j r. job_result load j = Inr r) js rs"
proof (induction js arbitrary: rs)
  case (Cons j js)
  show ?case by (auto simp: list_all2_Cons1 Cons.IH [symmetric] split: sum.splits)
qed auto

lemma run_in_order_fails:
  "isl (run_in_order load js) \<longleftrightarrow> (\<exists>j \<in> set js. isl (job_result load j))"
  by (induction js) (auto split: sum.splits)

section \<open>Progress\<close>

fun progress_left :: "('s, 'r) progress \<Rightarrow> nat" where
  "progress_left Queued = 4"
| "progress_left Opening = 3"
| "progress_left (Opened a) = 2"
| "progress_left (Resident a) = 1"
| "progress_left p = 0"

abbreviation task_left :: "('s, 'r) job \<times> ('s, 'r) progress \<Rightarrow> nat" where
  "task_left t \<equiv> progress_left (snd t)"

lemma progress_left_le: "progress_left p \<le> 4"
  by (cases p) simp_all

lemma pool_step_moves_one:
  "pool_step load (m, ts) (m', ts') \<Longrightarrow> \<exists>i < length ts. \<exists>t. ts' = ts[i := t] \<and> task_left t < task_left (ts ! i)"
  by (erule pool_stepE) force+

lemma pool_can_step:
  assumes "i < length ts" "0 < task_left (ts ! i)"
  shows "\<exists>s'. pool_step load (m, ts) s'"
proof -
  obtain j p where t: "ts ! i = (j, p)" by fastforce
  with assms(2) have "0 < progress_left p" by simp
  then show ?thesis
  proof (cases p)
    case Queued
    then show ?thesis
      using fast_path [OF assms(1)] slow_path [OF assms(1)] t by (cases "resident_sets m (job_key j)") blast+
  next
    case Opening
    have "(\<exists>e. load (job_key j) = Inl e) \<or> load (job_key j) = Inr None \<or> (\<exists>s. load (job_key j) = Inr (Some s))"
      by (cases "load (job_key j)") auto
    then show ?thesis
      using open_missing [OF assms(1)] open_error [OF assms(1)] open_mmap [OF assms(1)] t Opening by blast
  next
    case (Opened a)
    obtain u c where "or_insert (job_key j) a (resident_sets m) = (u, c)" by fastforce
    then show ?thesis using publish_set [OF assms(1)] t Opened by blast
  next
    case (Resident a)
    then show ?thesis
      using work_done [OF assms(1)] work_error [OF assms(1)] t by (cases "work j (snd a)") blast+
  qed simp_all
qed

interpretation searches: task_pool "pool_step load" task_left for load
  by unfold_locales (rule pool_step_moves_one pool_can_step; assumption)+

section \<open>What every interleaving keeps\<close>

type_synonym ('s, 'r) pool = "'s mappings \<times> (('s, 'r) job \<times> ('s, 'r) progress) list"

text \<open>What a task knows: the FST it holds is the one on disk, or the resident one.\<close>

fun job_ok ::
  "(string \<times> column \<Rightarrow> pdq_error + 's option) \<Rightarrow> 's mappings \<Rightarrow> ('s, 'r) job \<Rightarrow> ('s, 'r) progress \<Rightarrow> bool" where
  "job_ok load m j (Opened a) \<longleftrightarrow> load (job_key j) = Inr (Some (snd a))"
| "job_ok load m j (Resident a) \<longleftrightarrow> resident_sets m (job_key j) = Some a"
| "job_ok load m j NoIndex \<longleftrightarrow> load (job_key j) = Inr None"
| "job_ok load m j (Answered a r) \<longleftrightarrow> resident_sets m (job_key j) = Some a \<and> work j (snd a) = Inr r"
| "job_ok load m j (Broke e) \<longleftrightarrow> job_result load j = Inl e"
| "job_ok load m j p \<longleftrightarrow> True"

definition maps_ok :: "(string \<times> column \<Rightarrow> pdq_error + 's option) \<Rightarrow> 's mappings \<Rightarrow> bool" where
  "maps_ok load m \<longleftrightarrow> (\<forall>key a. resident_sets m key = Some a \<longrightarrow> load key = Inr (Some (snd a)))"

lemma maps_okD: "maps_ok load m \<Longrightarrow> resident_sets m key = Some a \<Longrightarrow> load key = Inr (Some (snd a))"
  unfolding maps_ok_def by blast

lemma maps_ok_next [simp]: "maps_ok load (m\<lparr>next_mapping := n\<rparr>) = maps_ok load m"
  by (simp add: maps_ok_def)

definition drops_ok :: "(('s, 'r) job \<times> ('s, 'r) progress) list \<Rightarrow> bool" where
  "drops_ok ts \<longleftrightarrow>
     (\<forall>j. (j, Dropped) \<in> set ts \<longrightarrow> (\<exists>j' e. (j', Broke e) \<in> set ts \<and> call j' = call j))"

definition pool_ok :: "(string \<times> column \<Rightarrow> pdq_error + 's option) \<Rightarrow> ('s, 'r) pool \<Rightarrow> bool" where
  "pool_ok load s \<longleftrightarrow>
     maps_ok load (fst s) \<and> (\<forall>(j, p) \<in> set (snd s). job_ok load (fst s) j p) \<and> drops_ok (snd s)"

lemma pool_ok_start: "maps_ok load m \<Longrightarrow> pool_ok load (m, enqueue js)"
  by (auto simp: pool_ok_def enqueue_def drops_ok_def)

text \<open>Resident FSTs stay, with their mapping, and only the task that moves changes.\<close>

definition pool_effect ::
  "(string \<times> column \<Rightarrow> pdq_error + 's option) \<Rightarrow> ('s, 'r) pool \<Rightarrow> ('s, 'r) pool \<Rightarrow> bool" where
  "pool_effect load s s' \<longleftrightarrow>
     resident_sets (fst s) \<subseteq>\<^sub>m resident_sets (fst s') \<and> maps_ok load (fst s')
     \<and> (\<exists>i j p p'. i < length (snd s) \<and> snd s ! i = (j, p) \<and> (\<forall>e. p \<noteq> Broke e)
        \<and> snd s' = (snd s)[i := (j, p')] \<and> job_ok load (fst s') j p'
        \<and> (p' = Dropped \<longrightarrow> (\<exists>j' e. (j', Broke e) \<in> set (snd s) \<and> call j' = call j)))"

lemma pool_effectI:
  assumes "i < length ts" "ts ! i = (j, p)" "\<forall>e. p \<noteq> Broke e"
    "resident_sets m \<subseteq>\<^sub>m resident_sets m'" "maps_ok load m'" "job_ok load m' j p'"
    "p' = Dropped \<longrightarrow> (\<exists>j' e. (j', Broke e) \<in> set ts \<and> call j' = call j)"
  shows "pool_effect load (m, ts) (m', ts[i := (j, p')])"
  unfolding pool_effect_def fst_conv snd_conv using assms by blast

lemma pool_step_effect:
  "pool_step load s s' \<Longrightarrow> maps_ok load (fst s) \<Longrightarrow> \<forall>(j, p) \<in> set (snd s). job_ok load (fst s) j p \<Longrightarrow>
   pool_effect load s s'"
proof (induction rule: pool_step.induct)
  case (publish_set i ts j a m u c)
  then have "(j, Opened a) \<in> set ts" by (metis nth_mem)
  with publish_set.prems have "load (job_key j) = Inr (Some (snd a))" by fastforce
  with publish_set show ?case
    by (intro pool_effectI) (auto simp: or_insert_def maps_ok_def map_le_def split: option.splits if_splits)
next
  case (work_done i ts j a r m)
  then have "(j, Resident a) \<in> set ts" by (metis nth_mem)
  with work_done.prems have "resident_sets m (job_key j) = Some a" by fastforce
  with work_done show ?case by (intro pool_effectI) auto
next
  case (work_error i ts j a e m)
  then have "(j, Resident a) \<in> set ts" by (metis nth_mem)
  with work_error.prems have "resident_sets m (job_key j) = Some a" by fastforce
  with maps_okD work_error have "load (job_key j) = Inr (Some (snd a))" by fastforce
  with work_error have "job_result load j = Inl e" by (simp add: job_result_def)
  with work_error show ?case by (intro pool_effectI) auto
qed ((rule pool_effectI, assumption, assumption); auto simp: job_result_def)+

lemma job_ok_mono:
  "job_ok load m j p \<Longrightarrow> resident_sets m \<subseteq>\<^sub>m resident_sets m' \<Longrightarrow> job_ok load m' j p"
  by (cases p) (auto simp: map_le_def dom_def)

lemma drops_ok_update:
  assumes "drops_ok ts" "i < length ts" "ts ! i = (j, p)" "\<forall>e. p \<noteq> Broke e"
    "p' = Dropped \<longrightarrow> (\<exists>j' e. (j', Broke e) \<in> set ts \<and> call j' = call j)"
  shows "drops_ok (ts[i := (j, p')])"
proof -
  have keep: "(j', Broke e) \<in> set (ts[i := (j, p')])" if "(j', Broke e) \<in> set ts" for j' e
  proof -
    from that obtain k where k: "k < length ts" "ts ! k = (j', Broke e)" by (auto simp: in_set_conv_nth)
    with assms(3,4) have "k \<noteq> i" by auto
    with k show ?thesis by (metis length_list_update nth_list_update_neq nth_mem)
  qed
  show ?thesis
    unfolding drops_ok_def
  proof (intro allI impI)
    fix j1 assume "(j1, Dropped) \<in> set (ts[i := (j, p')])"
    then have "(j1, Dropped) \<in> set ts \<or> j1 = j \<and> p' = Dropped"
      by (auto dest!: set_update_subset_insert [THEN subsetD])
    with assms(1,5) have "\<exists>j' e. (j', Broke e) \<in> set ts \<and> call j' = call j1"
      unfolding drops_ok_def by blast
    with keep show "\<exists>j' e. (j', Broke e) \<in> set (ts[i := (j, p')]) \<and> call j' = call j1" by blast
  qed
qed

lemma pool_ok_step:
  assumes "pool_step load s s'" "pool_ok load s"
  shows "pool_ok load s' \<and> map fst (snd s') = map fst (snd s)
    \<and> resident_sets (fst s) \<subseteq>\<^sub>m resident_sets (fst s')"
proof -
  from assms(2) have ok: "maps_ok load (fst s)" "\<forall>(j, p) \<in> set (snd s). job_ok load (fst s) j p" "drops_ok (snd s)"
    by (auto simp: pool_ok_def)
  from pool_step_effect [OF assms(1) ok(1,2), unfolded pool_effect_def] obtain i j p p' where
    le: "resident_sets (fst s) \<subseteq>\<^sub>m resident_sets (fst s')" and m: "maps_ok load (fst s')"
    and i: "i < length (snd s)" "snd s ! i = (j, p)" "\<forall>e. p \<noteq> Broke e" "snd s' = (snd s)[i := (j, p')]"
    and p': "job_ok load (fst s') j p'" "p' = Dropped \<longrightarrow> (\<exists>j' e. (j', Broke e) \<in> set (snd s) \<and> call j' = call j)"
    by blast
  have "\<forall>(j, p) \<in> set (snd s'). job_ok load (fst s') j p"
    using ok(2) p'(1) job_ok_mono [OF _ le] unfolding i(4)
    by (fastforce dest!: set_update_subset_insert [THEN subsetD])
  moreover have "drops_ok (snd s')" unfolding i(4) by (rule drops_ok_update [OF ok(3) i(1-3) p'(2)])
  moreover have "map fst (snd s') = map fst (snd s)"
    unfolding i(4) map_update using i(1,2) by (metis fst_conv length_map list_update_id nth_map)
  ultimately show ?thesis using m le by (simp add: pool_ok_def)
qed

lemma pool_ok_run:
  assumes "pool_run load s s'" "pool_ok load s"
  shows "pool_ok load s' \<and> map fst (snd s') = map fst (snd s)
    \<and> resident_sets (fst s) \<subseteq>\<^sub>m resident_sets (fst s')"
  using assms
proof (induction rule: rtranclp_induct)
  case (step t u)
  with pool_ok_step [of load t u] show ?case by (auto intro: map_le_trans)
qed simp

section \<open>A finished pool\<close>

text \<open>A task that is through, but for a dropped one, has the result of its job.\<close>

lemma through_cases:
  assumes "job_ok load m j p" "maps_ok load m" "progress_left p = 0"
  obtains "p = Dropped" | e where "p = Broke e" "job_result load j = Inl e"
    | "\<forall>e. p \<noteq> Broke e" "p \<noteq> Dropped" "job_result load j = Inr (task_value (j, p))"
  using assms by (cases p) (auto simp: job_result_def task_value_def maps_ok_def)

lemma finished_call:
  assumes ok: "pool_ok load (m, ts)" and through: "\<forall>t \<in> set ts. task_left t = 0"
  shows "call_returns k ts (Inr rs) \<longleftrightarrow>
      run_in_order load (filter (\<lambda>j. call j = k) (map fst ts)) = Inr rs"
    and "(\<exists>e. call_returns k ts (Inl e)) \<longleftrightarrow>
      isl (run_in_order load (filter (\<lambda>j. call j = k) (map fst ts)))"
    and "call_returns k ts (Inl e) \<Longrightarrow> \<exists>j \<in> set (map fst ts). call j = k \<and> job_result load j = Inl e"
proof -
  let ?mine = "filter (\<lambda>t. call (fst t) = k) ts"
  have js: "filter (\<lambda>j. call j = k) (map fst ts) = map fst ?mine" by (simp add: filter_map comp_def)
  have m: "maps_ok load m" and j: "\<And>j p. (j, p) \<in> set ts \<Longrightarrow> job_ok load m j p" and d: "drops_ok ts"
    using ok by (auto simp: pool_ok_def)
  have broke: "job_result load j = Inl e" if "(j, Broke e) \<in> set ts" for j e using j [OF that] by simp
  have val: "job_result load (fst t) = Inr (task_value t)"
    if "t \<in> set ?mine" "\<forall>e. Broke e \<notin> snd ` set ?mine" for t
  proof -
    obtain j' p where t: "t = (j', p)" by fastforce
    with that(1) have in_ts: "(j', p) \<in> set ts" "call j' = k" by auto
    have "p \<noteq> Dropped"
    proof
      assume "p = Dropped"
      with d in_ts obtain j2 e where "(j2, Broke e) \<in> set ts" "call j2 = k" unfolding drops_ok_def by blast
      then have "Broke e \<in> snd ` set ?mine" by force
      with that(2) show False by blast
    qed
    moreover have "\<forall>e. p \<noteq> Broke e" using that t by force
    ultimately show ?thesis
      using through_cases [OF j [OF in_ts(1)] m] through in_ts(1) t by (metis fst_conv snd_conv)
  qed
  have vals: "run_in_order load (map fst ?mine) = Inr (map task_value ?mine)"
    if "\<forall>e. Broke e \<notin> snd ` set ?mine"
    using val [OF _ that] by (simp add: run_in_order_Inr list_all2_map1 list_all2_map2 list_all2_same)
  have fails: "(\<exists>e. Broke e \<in> snd ` set ?mine) \<longleftrightarrow> (\<exists>t \<in> set ?mine. isl (job_result load (fst t)))"
  proof
    assume "\<exists>e. Broke e \<in> snd ` set ?mine"
    then obtain j e where "(j, Broke e) \<in> set ?mine" by force
    with broke [of j e] show "\<exists>t \<in> set ?mine. isl (job_result load (fst t))" by force
  next
    assume "\<exists>t \<in> set ?mine. isl (job_result load (fst t))"
    with val show "\<exists>e. Broke e \<in> snd ` set ?mine" by (metis sum.disc(2))
  qed
  show "(\<exists>e. call_returns k ts (Inl e)) \<longleftrightarrow> isl (run_in_order load (filter (\<lambda>j. call j = k) (map fst ts)))"
    unfolding js run_in_order_fails using fails by (simp add: call_returns_def Let_def)
  show "\<exists>j \<in> set (map fst ts). call j = k \<and> job_result load j = Inl e" if "call_returns k ts (Inl e)"
    using that broke by (force simp: call_returns_def Let_def)
  show "call_returns k ts (Inr rs) \<longleftrightarrow> run_in_order load (filter (\<lambda>j. call j = k) (map fst ts)) = Inr rs"
  proof
    assume "call_returns k ts (Inr rs)"
    then show "run_in_order load (filter (\<lambda>j. call j = k) (map fst ts)) = Inr rs"
      unfolding js using vals by (simp add: call_returns_def Let_def)
  next
    assume r: "run_in_order load (filter (\<lambda>j. call j = k) (map fst ts)) = Inr rs"
    then have no: "\<forall>e. Broke e \<notin> snd ` set ?mine"
      using fails run_in_order_fails [of load "map fst ?mine"] unfolding js by auto
    with vals r show "call_returns k ts (Inr rs)" unfolding js by (simp add: call_returns_def Let_def)
  qed
qed

section \<open>The searches one file after the other\<close>

lemma search_collect_in_order:
  "search_collect e (run_in_order load (map (\<lambda>h. \<lparr>call = k, job_hash = h, job_column = column,
       work = search_work search h, absent = None\<rparr>) hs)) =
     (case search_files_pure L w (index_dir e) column search hs of
        Inl er \<Rightarrow> Inl er | Inr ms \<Rightarrow> Inr (map (resolve_match e) ms))"
  if "\<forall>h. load (h, column) = load_set L w (index_dir e) h column"
  using that
  by (induction hs)
     (auto simp: search_collect_def job_result_def search_work_def split: sum.split option.split)

lemma multi_collect_in_order:
  "coherent L w e \<Longrightarrow> index_dir e = dir \<Longrightarrow> \<forall>h. load (h, column) = load_set L w dir h column \<Longrightarrow>
   multi_collect (run_in_order load (map (\<lambda>h. \<lparr>call = k, job_hash = h, job_column = column,
       work = (\<lambda>s. Inr (length (filter (set_has_term L s) terms))), absent = 0\<rparr>) hs)) =
     fst (multi_files L w e column terms hs)"
proof (induction hs arbitrary: e)
  case (Cons h hs)
  from get_or_load_set_coherent [OF Cons.prems(1)] obtain e1
    where e1: "get_or_load_set L w e h column = (load_set L w dir h column, e1)" "coherent L w e1" "same_index e e1"
    using Cons.prems(2) by blast
  from Cons.IH [OF e1(2) _ Cons.prems(3)] e1(3) Cons.prems(2)
  have "multi_collect (run_in_order load (map (\<lambda>h. \<lparr>call = k, job_hash = h, job_column = column,
       work = (\<lambda>s. Inr (length (filter (set_has_term L s) terms))), absent = 0\<rparr>) hs)) =
     fst (multi_files L w e1 column terms hs)" by (simp add: same_index_def)
  with e1(1) Cons.prems(3) show ?case
    by (auto simp: multi_collect_def job_result_def split: sum.splits option.split prod.split)
qed (simp add: multi_collect_def)

end
