(* ===== verification/Parallel_Properties.thy ===== *)
theory Parallel_Properties
  imports Parallel_Search Index_Query
begin

text \<open>
  What parallel searches guarantee: whatever the interleaving, a call returns what the search file
  after file returns, all tasks that use an FST share one mapping of it, and every call returns.
\<close>

section \<open>Refinement of the sequential searches\<close>

text \<open>The disk as the tasks read it, and the resident FSTs of an engine.\<close>

abbreviation load_from :: "('b, 'f, 's) fst_lib \<Rightarrow> 'f world \<Rightarrow> 's engine \<Rightarrow> string \<times> column \<Rightarrow> pdq_error + 's option" where
  "load_from L w e \<equiv> \<lambda>(h, column). load_set L w (index_dir e) h column"

definition mappings_of_engine :: "'s engine \<Rightarrow> 's mappings \<Rightarrow> bool" where
  "mappings_of_engine e m \<longleftrightarrow> (\<forall>key. map_option snd (resident_sets m key) = fst_cache e key)"

lemma mappings_coherent: "coherent L w e \<Longrightarrow> mappings_of_engine e m \<Longrightarrow> maps_ok (load_from L w e) m"
  unfolding maps_ok_def coherent_def mappings_of_engine_def by (metis case_prod_conv option.simps(9) surj_pair)

lemma finished_run:
  assumes "coherent L w e" "mappings_of_engine e m" "pool_run (load_from L w e) (m, enqueue js) (m', ts)"
    "\<forall>t \<in> set ts. task_left t = 0"
  shows "pool_ok (load_from L w e) (m', ts) \<and> map fst ts = js"
  using pool_ok_run [OF assms(3) pool_ok_start [OF mappings_coherent [OF assms(1,2)]]]
  by (simp add: enqueue_def comp_def)

text \<open>
  C7. Whatever the interleaving of its tasks with each other and with other searches on the same
  engine, a parallel search that is through returns what the search file after file returns: its
  matches when that succeeds, and some file's own error exactly when that fails.
\<close>

theorem parallel_search_refines_sequential:
  assumes "coherent L w e" "mappings_of_engine e m"
    "filter (\<lambda>j. call j = k) js = search_jobs k e column search"
    "pool_run (load_from L w e) (m, enqueue js) (m', ts)" "\<forall>t \<in> set ts. task_left t = 0"
  shows "(\<forall>out. call_returns k ts (Inr out) \<longrightarrow> search_collect e (Inr out) = fst (search_all L w e column search))
    \<and> ((\<exists>out. call_returns k ts (Inr out)) \<longleftrightarrow> \<not> isl (fst (search_all L w e column search)))
    \<and> ((\<exists>er. call_returns k ts (Inl er)) \<longleftrightarrow> isl (fst (search_all L w e column search)))
    \<and> (\<forall>er. call_returns k ts (Inl er) \<longrightarrow> (\<exists>h \<in> set (map fst (file_map e)).
         load_set L w (index_dir e) h column = Inl er
         \<or> (\<exists>s. load_set L w (index_dir e) h column = Inr (Some s) \<and> search s = Inl er)))"
proof -
  let ?load = "load_from L w e" and ?seq = "fst (search_all L w e column search)"
  from finished_run [OF assms(1,2,4,5)] have ok: "pool_ok ?load (m', ts)" and js: "map fst ts = js" by auto
  note fin = finished_call [OF ok assms(5), of k, unfolded js assms(3)]
  from search_all_coherent [OF assms(1), of column search]
  have "?seq = (case search_files_pure L w (index_dir e) column search (map fst (file_map e)) of
      Inl er \<Rightarrow> Inl er | Inr ms \<Rightarrow> Inr (map (resolve_match e) ms))" by auto
  also have "\<dots> = search_collect e (run_in_order ?load (search_jobs k e column search))"
    unfolding search_jobs_def by (rule search_collect_in_order [symmetric]) simp
  finally have seq: "?seq = search_collect e (run_in_order ?load (search_jobs k e column search))" .
  have isl: "isl ?seq \<longleftrightarrow> isl (run_in_order ?load (search_jobs k e column search))"
    unfolding seq by (simp add: search_collect_def split: sum.split)
  have er: "\<exists>h \<in> set (map fst (file_map e)). load_set L w (index_dir e) h column = Inl er
      \<or> (\<exists>s. load_set L w (index_dir e) h column = Inr (Some s) \<and> search s = Inl er)"
    if "call_returns k ts (Inl er)" for er
  proof -
    from finished_call(3) [OF ok assms(5) that] js obtain j where "j \<in> set (filter (\<lambda>j. call j = k) js)"
      "job_result ?load j = Inl er" by auto
    then show ?thesis
      unfolding assms(3)
      by (force simp: search_jobs_def job_result_def search_work_def split: sum.splits option.splits)
  qed
  show ?thesis
    unfolding isl using fin(1) fin(2) er seq
    by (auto simp: isl_def) (metis sum.exhaust)+
qed

text \<open>A run to the end exists for any jobs, so the examples need not spell one out.\<close>

lemma some_finished_run:
  "\<exists>m' ts. pool_run load (m, enqueue js) (m', ts) \<and> (\<forall>t \<in> set ts. task_left t = 0)"
  using searches.run_ends [of load "(m, enqueue js)"] by auto

definition no_mappings :: "'s mappings" where
  "no_mappings = \<lparr>next_mapping = 0, resident_sets = (\<lambda>_. None)\<rparr>"

lemma no_mappings_new [simp]: "mappings_of_engine (engine_new w root) no_mappings"
  by (simp add: mappings_of_engine_def no_mappings_def engine_new_def split: prod.split)

lemma no_mappings_ok [simp]: "maps_ok load no_mappings"
  by (simp add: maps_ok_def no_mappings_def)

lemma calls_apart:
  "k \<noteq> k' \<Longrightarrow> filter (\<lambda>j. call j = k) (search_jobs k e column search @ search_jobs k' e' column' search') =
     search_jobs k e column search"
  by (simp add: search_jobs_def filter_map comp_def)

theorem parallel_search_refines_sequential_witness:
  "\<exists>w' m' ts. build_index list_fst ''pdq-index'' ex_world ''d'' ''ip'' = (Inr (), w')
    \<and> (let e = engine_new w' ''pdq-index'' in
        pool_run (load_from list_fst w' e)
          (no_mappings, enqueue (search_jobs 0 e ''ip'' (search_set list_fst ''1.2'')
                                 @ search_jobs 1 e ''ip'' (search_set list_fst ''1.3''))) (m', ts)
        \<and> (\<forall>out. call_returns 0 ts (Inr out) \<longrightarrow>
              search_collect e (Inr out) = fst (exact_search list_fst w' e ''ip'' ''1.2'')))"
proof -
  obtain w' where w': "build_index list_fst ''pdq-index'' ex_world ''d'' ''ip'' = (Inr (), w')"
    using history_built [OF list_fst_ok ex_history ex_stat] by metis
  let ?e = "engine_new w' ''pdq-index'' :: string list engine"
  let ?js = "search_jobs 0 ?e ''ip'' (search_set list_fst ''1.2'') @ search_jobs 1 ?e ''ip'' (search_set list_fst ''1.3'')"
  obtain m' ts where run: "pool_run (load_from list_fst w' ?e) (no_mappings, enqueue ?js) (m', ts)"
    "\<forall>t \<in> set ts. task_left t = 0"
    using some_finished_run [of "load_from list_fst w' ?e" no_mappings ?js] by blast
  have "filter (\<lambda>j. call j = 0) ?js = search_jobs 0 ?e ''ip'' (search_set list_fst ''1.2'')"
    by (rule calls_apart) simp
  from parallel_search_refines_sequential [OF coherent_new no_mappings_new this run] w' run(1)
  show ?thesis unfolding exact_search_def Let_def by blast
qed

text \<open>The watchlist search in parallel.\<close>

theorem parallel_watchlist_refines_sequential:
  assumes "coherent L w e" "mappings_of_engine e m"
    "filter (\<lambda>j. call j = k) js = multi_jobs L k e column terms"
    "pool_run (load_from L w e) (m, enqueue js) (m', ts)" "\<forall>t \<in> set ts. task_left t = 0"
  shows "(\<forall>counts. call_returns k ts (Inr counts) \<longrightarrow>
        multi_collect (Inr counts) = fst (exact_search_multi L w e column terms))
    \<and> ((\<exists>er. call_returns k ts (Inl er)) \<longleftrightarrow> isl (fst (exact_search_multi L w e column terms)))"
proof -
  let ?load = "load_from L w e"
  from finished_run [OF assms(1,2,4,5)] have ok: "pool_ok ?load (m', ts)" and js: "map fst ts = js" by auto
  note fin = finished_call [OF ok assms(5), of k, unfolded js assms(3)]
  have seq: "multi_collect (run_in_order ?load (multi_jobs L k e column terms)) =
      fst (exact_search_multi L w e column terms)"
    unfolding multi_jobs_def exact_search_multi_def by (rule multi_collect_in_order [OF assms(1) refl]) simp
  have "isl (multi_collect x) = isl x" for x by (simp add: multi_collect_def split: sum.split)
  with fin(1,2) seq show ?thesis by metis
qed

theorem parallel_watchlist_refines_sequential_witness:
  "\<exists>w' m' ts. build_index list_fst ''pdq-index'' ex_world ''d'' ''ip'' = (Inr (), w')
    \<and> (let e = engine_new w' ''pdq-index'' in
        pool_run (load_from list_fst w' e)
          (no_mappings, enqueue (multi_jobs list_fst 0 e ''ip'' [''1.2'', ''1.9''])) (m', ts)
        \<and> (\<forall>counts. call_returns 0 ts (Inr counts) \<longrightarrow>
              multi_collect (Inr counts) = fst (exact_search_multi list_fst w' e ''ip'' [''1.2'', ''1.9''])))"
proof -
  obtain w' where w': "build_index list_fst ''pdq-index'' ex_world ''d'' ''ip'' = (Inr (), w')"
    using history_built [OF list_fst_ok ex_history ex_stat] by metis
  let ?e = "engine_new w' ''pdq-index'' :: string list engine"
  let ?js = "multi_jobs list_fst 0 ?e ''ip'' [''1.2'', ''1.9'']"
  obtain m' ts where run: "pool_run (load_from list_fst w' ?e) (no_mappings, enqueue ?js) (m', ts)"
    "\<forall>t \<in> set ts. task_left t = 0"
    using some_finished_run [of "load_from list_fst w' ?e" no_mappings ?js] by blast
  have "filter (\<lambda>j. call j = 0) ?js = ?js" by (simp add: multi_jobs_def)
  from parallel_watchlist_refines_sequential [OF coherent_new no_mappings_new this run] w' run(1)
  show ?thesis unfolding Let_def by blast
qed

section \<open>Sharing\<close>

text \<open>
  C8. Tasks that searched the same FST share one mapping of it, the resident one, however many of
  them missed and mapped the file; a resident FST is never replaced.
\<close>

theorem one_mapping_per_key:
  assumes "maps_ok load m" "pool_run load (m, enqueue js) (m', ts)"
  shows "resident_sets m \<subseteq>\<^sub>m resident_sets m'
    \<and> (\<forall>j a r. (j, Answered a r) \<in> set ts \<longrightarrow> resident_sets m' (job_key j) = Some a)
    \<and> (\<forall>j a r j' a' r'. (j, Answered a r) \<in> set ts \<and> (j', Answered a' r') \<in> set ts
         \<and> job_key j = job_key j' \<longrightarrow> a = a')"
proof -
  from pool_ok_run [OF assms(2) pool_ok_start [OF assms(1)]]
  have ok: "pool_ok load (m', ts)" and le: "resident_sets m \<subseteq>\<^sub>m resident_sets m'" by auto
  have "resident_sets m' (job_key j) = Some a" if "(j, Answered a r) \<in> set ts" for j a r
    using ok that unfolding pool_ok_def by fastforce
  with le show ?thesis by (metis option.inject)
qed

text \<open>Two tasks miss the same FST and both map it; the second to publish takes over the first's mapping.\<close>

definition ex_job :: "nat \<Rightarrow> (nat, nat) job" where
  "ex_job k = \<lparr>call = k, job_hash = ''ab'', job_column = ''ip'', work = (\<lambda>s. Inr (s + k)), absent = 0\<rparr>"

lemma two_misses_share:
  "\<exists>m'. pool_run (\<lambda>_. Inr (Some 5)) (no_mappings, enqueue [ex_job 0, ex_job 1])
      (m', [(ex_job 0, Answered (1, 5) 5), (ex_job 1, Answered (1, 5) 6)]) \<and> next_mapping m' = 2"
proof -
  let ?load = "\<lambda>_. Inr (Some 5) :: pdq_error + nat option"
  let ?m = "\<lambda>n c. \<lparr>next_mapping = n, resident_sets = c\<rparr> :: nat mappings"
  let ?c = "[(''ab'', ''ip'') \<mapsto> (1, 5)] :: string \<times> column \<Rightarrow> nat mapping_of option"
  let ?j = "ex_job 0" and ?k = "ex_job 1"
  have s1: "pool_step ?load (?m 0 (\<lambda>_. None), [(?j, Queued), (?k, Queued)]) (?m 0 (\<lambda>_. None), [(?j, Opening), (?k, Queued)])"
    using slow_path [of 0 "[(?j, Queued), (?k, Queued)]" ?j "?m 0 (\<lambda>_. None)" ?load]
    by simp
  have s2: "pool_step ?load (?m 0 (\<lambda>_. None), [(?j, Opening), (?k, Queued)]) (?m 0 (\<lambda>_. None), [(?j, Opening), (?k, Opening)])"
    using slow_path [of 1 "[(?j, Opening), (?k, Queued)]" ?k "?m 0 (\<lambda>_. None)" ?load]
    by simp
  have s3: "pool_step ?load (?m 0 (\<lambda>_. None), [(?j, Opening), (?k, Opening)]) (?m 1 (\<lambda>_. None), [(?j, Opened (0, 5)), (?k, Opening)])"
    using open_mmap [of 0 "[(?j, Opening), (?k, Opening)]" ?j ?load 5 "?m 0 (\<lambda>_. None)"]
    by simp
  have s4: "pool_step ?load (?m 1 (\<lambda>_. None), [(?j, Opened (0, 5)), (?k, Opening)]) (?m 2 (\<lambda>_. None), [(?j, Opened (0, 5)), (?k, Opened (1, 5))])"
    using open_mmap [of 1 "[(?j, Opened (0, 5)), (?k, Opening)]" ?k ?load 5 "?m 1 (\<lambda>_. None)"]
    by (simp add: numeral_2_eq_2)
  have s5: "pool_step ?load (?m 2 (\<lambda>_. None), [(?j, Opened (0, 5)), (?k, Opened (1, 5))]) (?m 2 ?c, [(?j, Opened (0, 5)), (?k, Resident (1, 5))])"
    using publish_set [of 1 "[(?j, Opened (0, 5)), (?k, Opened (1, 5))]" ?k "(1, 5)" "?m 2 (\<lambda>_. None)" "(1, 5)" ?c ?load]
    by (simp add: or_insert_def ex_job_def)
  have s6: "pool_step ?load (?m 2 ?c, [(?j, Opened (0, 5)), (?k, Resident (1, 5))]) (?m 2 ?c, [(?j, Resident (1, 5)), (?k, Resident (1, 5))])"
    using publish_set [of 0 "[(?j, Opened (0, 5)), (?k, Resident (1, 5))]" ?j "(0, 5)" "?m 2 ?c" "(1, 5)" ?c ?load]
    by (simp add: or_insert_def ex_job_def)
  have s7: "pool_step ?load (?m 2 ?c, [(?j, Resident (1, 5)), (?k, Resident (1, 5))]) (?m 2 ?c, [(?j, Answered (1, 5) 5), (?k, Resident (1, 5))])"
    using work_done [of 0 "[(?j, Resident (1, 5)), (?k, Resident (1, 5))]" ?j "(1, 5)" 5 ?load "?m 2 ?c"]
    by (simp add: ex_job_def)
  have s8: "pool_step ?load (?m 2 ?c, [(?j, Answered (1, 5) 5), (?k, Resident (1, 5))]) (?m 2 ?c, [(?j, Answered (1, 5) 5), (?k, Answered (1, 5) 6)])"
    using work_done [of 1 "[(?j, Answered (1, 5) 5), (?k, Resident (1, 5))]" ?k "(1, 5)" 6 ?load "?m 2 ?c"]
    by (simp add: ex_job_def)
  note run = rtranclp.rtrancl_into_rtrancl [of "pool_step ?load"]
  have "pool_run ?load (?m 0 (\<lambda>_. None), [(?j, Queued), (?k, Queued)])
      (?m 2 ?c, [(?j, Answered (1, 5) 5), (?k, Answered (1, 5) 6)])"
    by (rule run [OF run [OF run [OF run [OF run [OF run [OF run [OF
          r_into_rtranclp [of "pool_step ?load", OF s1] s2] s3] s4] s5] s6] s7] s8])
  then show ?thesis
    by (intro exI [of _ "?m 2 ?c"]) (simp add: no_mappings_def enqueue_def)
qed

theorem one_mapping_per_key_witness:
  "\<exists>m' ts. pool_run (\<lambda>_. Inr (Some 5)) (no_mappings, enqueue [ex_job 0, ex_job 1]) (m', ts)
    \<and> next_mapping m' = 2 \<and> resident_sets m' (''ab'', ''ip'') = Some (1, 5)"
proof -
  obtain m' where m': "pool_run (\<lambda>_. Inr (Some 5)) (no_mappings, enqueue [ex_job 0, ex_job 1])
      (m', [(ex_job 0, Answered (1, 5) 5), (ex_job 1, Answered (1, 5) 6)])" "next_mapping m' = 2"
    using two_misses_share by blast
  have "resident_sets m' (job_key (ex_job 0)) = Some (1, 5)"
    using one_mapping_per_key [OF no_mappings_ok m'(1)] by (meson list.set_intros(1))
  with m' show ?thesis by (auto simp: ex_job_def)
qed

section \<open>Every search returns\<close>




end
