(* ===== verification/Index_Properties.thy ===== *)
theory Index_Properties
  imports Index_Query
begin

text \<open>
  What the indexer does beyond a successful build: how it detects changes and where the detection
  fails, what it leaves behind when it fails, and what pruning removes.
\<close>

section \<open>Change detection\<close>

text \<open>
  C14. Re-indexing a changed file for one column refreshes the metadata all its columns share:
  afterwards needs_indexing reports another column as up to date although its FST is the one
  built before the change.
\<close>

theorem shared_metadata_hides_change:
  assumes "fst_ok L" "map_of (data w) p = Some f" "good_file f" "path_ok p"
    "get_dir w root (calculate_file_hash p) = Some d" "map_of (fsts d) (fst_name col) \<noteq> None"
    "column \<noteq> col"
  shows "\<exists>w'. index_file L root w p column = (Inr (), w')
    \<and> needs_indexing root w' p col = Inr False
    \<and> load_set L w' root (calculate_file_hash p) col = load_set L w root (calculate_file_hash p) col"
proof (rule index_file_success [OF assms(1-3) get_dir_slot_free [OF assms(5)], of column])
  fix ff w'
  assume w': "index_file L root w p column = (Inr (), w')" "data w' = data w"
    and d': "get_dir w' root (calculate_file_hash p) = Some \<lparr>meta = Some (file_metadata p f),
      fsts = AList.update (fst_name column) (Complete ff)
               (AList.update (fst_name column) Partial (fsts (old_dir w root (calculate_file_hash p))))\<rparr>"
  have o: "old_dir w root (calculate_file_hash p) = d" using assms(5) by (simp add: old_dir_def)
  have f': "map_of (data w') p = Some f" using assms(2) w'(2) by simp
  have "needs_indexing root w' p col = Inr False"
    using needs_indexing_stat [OF d' _ _ f' assms(3,3,4), of col] assms(6,7) by (simp add: o update_conv')
  moreover have "load_set L w' root (calculate_file_hash p) col = load_set L w root (calculate_file_hash p) col"
    using get_dir_map_of [OF d'] get_dir_map_of [OF assms(5)] assms(7)
    by (simp add: load_set_def o update_conv')
  ultimately show ?thesis using w'(1) by blast
qed

theorem shared_metadata_hides_change_witness:
  "\<exists>w'. index_file list_fst ''pdq-index'' ex_indexed ''d/a.parquet'' ''user'' = (Inr (), w')
    \<and> needs_indexing ''pdq-index'' w' ''d/a.parquet'' ''ip'' = Inr False
    \<and> load_set list_fst w' ''pdq-index'' (calculate_file_hash ''d/a.parquet'') ''ip'' = Inr (Some [])"
proof -
  have d: "map_of (data ex_indexed) ''d/a.parquet'' = Some ex_file" by (simp add: ex_indexed_def ex_data)
  have g: "get_dir ex_indexed ''pdq-index'' (calculate_file_hash ''d/a.parquet'') =
      Some \<lparr>meta = None, fsts = [(''ip.fst'', Complete [])]\<rparr>"
    by (simp add: get_dir_def tree_of_def ex_indexed_def)
  have "load_set list_fst ex_indexed ''pdq-index'' (calculate_file_hash ''d/a.parquet'') ''ip'' = Inr (Some [])"
    using get_dir_map_of [OF g] by (simp add: load_set_def fst_name_def list_fst_def)
  with shared_metadata_hides_change [OF list_fst_ok d ex_file_good ex_path_ok g, of "''ip''" "''user''"]
  show ?thesis by (simp add: fst_name_def)
qed

text \<open>
  C18. After a file is indexed, needs_indexing asks for a new build exactly when the whole
  seconds of its modification time or its size differ from the indexed version.
\<close>

theorem change_detection:
  assumes "fst_ok L" "map_of (data w) p = Some f" "good_file f" "path_ok p" "slot_free w root p"
  shows "\<exists>w'. index_file L root w p column = (Inr (), w')
    \<and> (\<forall>g. good_file g \<longrightarrow>
         needs_indexing root (w'\<lparr>data := AList.update p g (data w')\<rparr>) p column =
           Inr (secs_of g \<noteq> secs_of f \<or> fsize g \<noteq> fsize f))"
proof (rule index_file_success [OF assms(1-3,5), of column])
  fix ff w'
  assume w': "index_file L root w p column = (Inr (), w')"
    and d': "get_dir w' root (calculate_file_hash p) = Some \<lparr>meta = Some (file_metadata p f),
      fsts = AList.update (fst_name column) (Complete ff)
               (AList.update (fst_name column) Partial (fsts (old_dir w root (calculate_file_hash p))))\<rparr>"
  let ?w = "\<lambda>g. w'\<lparr>data := AList.update p g (data w')\<rparr>"
  have "needs_indexing root (?w g) p column = Inr (secs_of g \<noteq> secs_of f \<or> fsize g \<noteq> fsize f)"
    if g: "good_file g" for g
  proof (rule needs_indexing_stat [OF _ _ _ _ g assms(3,4)])
    show "get_dir (?w g) root (calculate_file_hash p) = Some \<lparr>meta = Some (file_metadata p f),
      fsts = AList.update (fst_name column) (Complete ff)
               (AList.update (fst_name column) Partial (fsts (old_dir w root (calculate_file_hash p))))\<rparr>"
      using d' by simp
    show "map_of (data (?w g)) p = Some g" by (simp add: update_conv')
  qed (simp_all add: update_conv')
  with w' show ?thesis by blast
qed

theorem change_detection_witness:
  "\<exists>w'. index_file list_fst ''pdq-index'' ex_world ''d/a.parquet'' ''ip'' = (Inr (), w')
    \<and> (\<forall>g. good_file g \<longrightarrow>
         needs_indexing ''pdq-index'' (w'\<lparr>data := AList.update ''d/a.parquet'' g (data w')\<rparr>) ''d/a.parquet'' ''ip'' =
           Inr (secs_of g \<noteq> 5 \<or> fsize g \<noteq> 40))"
proof -
  have "map_of (data ex_world) ''d/a.parquet'' = Some ex_file" by (simp add: ex_data)
  from change_detection [OF list_fst_ok this ex_file_good ex_path_ok ex_slot, of "''pdq-index''" "''ip''"]
  show ?thesis by (simp add: ex_file_def secs_of_def)
qed



text \<open>Indexing a column the file does not have, or has with another type than \<open>StringArray\<close>,
  succeeds and writes an FST without keys.\<close>

theorem missing_column_gives_empty_index:
  assumes "fst_ok L" "map_of (data w) p = Some f" "good_file f" "slot_free w root p"
    "no_string_column column f"
  shows "\<exists>w' s. index_file L root w p column = (Inr (), w')
    \<and> load_set L w' root (calculate_file_hash p) column = Inr (Some s)
    \<and> (\<forall>lo hi. set_range L s lo hi = [])"
proof (rule index_file_success [OF assms(1-4), of column])
  fix ff w'
  assume w': "index_file L root w p column = (Inr (), w')"
    and ff: "indexes_pairs L ff (file_pairs column f)"
    and d': "get_dir w' root (calculate_file_hash p) = Some \<lparr>meta = Some (file_metadata p f),
      fsts = AList.update (fst_name column) (Complete ff)
               (AList.update (fst_name column) Partial (fsts (old_dir w root (calculate_file_hash p))))\<rparr>"
  from ff obtain s where s: "set_open L ff = Inr s" "set_indexes L s {}"
    by (auto simp: indexes_pairs_def no_string_column_pairs [OF assms(5)])
  then have "\<forall>lo hi. set_range L s lo hi = []" by (auto elim!: set_indexesE)
  moreover have "load_set L w' root (calculate_file_hash p) column = Inr (Some s)"
    using get_dir_map_of [OF d'] s(1) by (simp add: load_set_def update_conv')
  ultimately show ?thesis using w' by blast
qed

theorem missing_column_gives_empty_index_witness:
  "\<exists>w' s. index_file list_fst ''pdq-index'' ex_world ''d/a.parquet'' ''user'' = (Inr (), w')
    \<and> load_set list_fst w' ''pdq-index'' (calculate_file_hash ''d/a.parquet'') ''user'' = Inr (Some s)
    \<and> (\<forall>lo hi. set_range list_fst s lo hi = [])"
proof -
  have "no_string_column ''user'' ex_file" by (auto simp: no_string_column_def ex_file_def)
  then show ?thesis
    by (intro missing_column_gives_empty_index [OF list_fst_ok _ ex_file_good ex_slot]) (simp_all add: ex_data)
qed

text \<open>An error of index_file changes no data file and no other index directory, and an error
  found while reading the Parquet file leaves the whole index root unchanged.\<close>

theorem index_file_error:
  assumes "index_file L root w p column = (Inl er, w')"
  shows "data w' = data w \<and> (\<forall>h. h \<noteq> calculate_file_hash p \<longrightarrow> get_dir w' root h = get_dir w root h)
    \<and> ((case map_of (data w) p of None \<Rightarrow> True | Some f \<Rightarrow>
         (case contents f of Inl _ \<Rightarrow> True | Inr rgs \<Rightarrow> isl (read_row_groups column 0 rgs []))) \<longrightarrow> w' = w)"
proof (cases "create_index_dir root (calculate_file_hash p) w")
  case (Inl e)
  with assms show ?thesis
    by (auto simp: index_file_def Let_def split: option.splits sum.splits)
next
  case (Inr w1)
  have fr: "data w1 = data w" "\<And>h. h \<noteq> calculate_file_hash p \<Longrightarrow> get_dir w1 root h = get_dir w root h"
    using create_index_dir_frame [OF Inr] by auto
  show ?thesis
    using assms fr unfolding index_file_def Let_def Inr
    by (auto split: option.splits sum.splits)
qed

theorem index_file_error_witness:
  "index_file list_fst ''r'' ex_world ''d/b.parquet'' ''ip'' = (Inl NotFound, ex_world)"
proof -
  have i: "index_file list_fst ''r'' ex_world ''d/b.parquet'' ''ip'' =
    (Inl NotFound, snd (index_file list_fst ''r'' ex_world ''d/b.parquet'' ''ip''))"
    by (simp add: index_file_def ex_data)
  from index_file_error [OF this] have "snd (index_file list_fst ''r'' ex_world ''d/b.parquet'' ''ip'') = ex_world"
    by (simp add: ex_data)
  with i show ?thesis by simp
qed

section \<open>Pruning\<close>



text \<open>
  C20. When one walked file is deleted after a build, pruning removes exactly one index
  directory, and exact searches then answer for the remaining files.
\<close>

theorem prune_after_delete:
  assumes "fst_ok L" "index_history L dir root column H w" "stat_determines H"
    "q \<in> set (walk_parquet w dir)"
  shows "\<exists>w' w2. build_index L root w dir column = (Inr (), w')
    \<and> prune_orphans root (w'\<lparr>data := AList.delete q (data w')\<rparr>) = (Inr 1, w2)
    \<and> (\<forall>t. \<exists>ms e'. exact_search L w2 (engine_new w2 root) column t = (Inr ms, e')
         \<and> answers w2 (set (walk_parquet w dir) - {q}) column (exact_hit t) ms)"
proof -
  from history_built [OF assms(1-3)] obtain w' where w': "build_index L root w dir column = (Inr (), w')"
    "all_current L H (set (walk_parquet w dir)) w' root column" by metis
  have "indexes w' root \<noteq> None" using build_index_root [OF w'(1)] by (simp add: has_root_def)
  from prune_current [OF w'(2) this assms(4) refl] obtain w2
    where w2: "prune_orphans root (w'\<lparr>data := AList.delete q (data w')\<rparr>) = (Inr 1, w2)"
      "all_current L H (set (walk_parquet w dir) - {q}) w2 root column" by blast
  have "\<exists>ms e'. exact_search L w2 (engine_new w2 root) column t = (Inr ms, e')
     \<and> answers w2 (set (walk_parquet w dir) - {q}) column (exact_hit t) ms" for t
    using exact_search_current [OF w2(2) opened_on_new] by blast
  with w'(1) w2(1) show ?thesis by blast
qed

theorem prune_after_delete_witness:
  "\<exists>w' w2. build_index list_fst ''pdq-index'' ex_world ''d'' ''ip'' = (Inr (), w')
    \<and> prune_orphans ''pdq-index'' (w'\<lparr>data := AList.delete ''d/a.parquet'' (data w')\<rparr>) = (Inr 1, w2)
    \<and> (\<forall>t. \<exists>ms e'. exact_search list_fst w2 (engine_new w2 ''pdq-index'') ''ip'' t = (Inr ms, e')
         \<and> answers w2 {} ''ip'' (exact_hit t) ms)"
  using prune_after_delete [OF list_fst_ok ex_history ex_stat, of "''d/a.parquet''"] by (simp add: ex_walk)

section \<open>Directory names\<close>

text \<open>The hash of a path is one to sixteen lower case hexadecimal digits, so it is a valid
  directory name.\<close>

theorem file_hash_is_directory_name:
  "calculate_file_hash p \<noteq> [] \<and> length (calculate_file_hash p) \<le> 16
    \<and> set (calculate_file_hash p) \<subseteq> set ''0123456789abcdef''"
proof -
  have "unat (siphash13 (p @ [CHR 0xFF])) < 16 ^ Suc 15"
    using unsigned_less [of "siphash13 (p @ [CHR 0xFF])", where ?'a = nat] by simp
  from show_hex_length [OF this] show_hex_digits show ?thesis
    by (simp add: calculate_file_hash_def)
qed

end
