(* ===== verification/Metadata_Cache.thy ===== *)
theory Metadata_Cache
  imports Read_Through Task_Pool File_Hash
begin

text \<open>
  The cache of parsed Parquet footers (\<open>src/provider.rs\<close>): \<open>MetadataCache\<close> with its counters, the
  reader factory and \<open>ParquetReaderWithCache::get_metadata\<close>.

  Parsing a footer is the parameter \<open>read_footer\<close>, a function of the key (the object store path)
  and of the reader options.  One lookup alone is \<open>get_metadata\<close>; lookups that run concurrently
  interleave at the points where the code takes the lock, parses or counts, which is the step
  relation \<open>reader_step\<close>.  The counters are 64 bits wide and wrap around.
\<close>

section \<open>The cache\<close>

record 'm metadata_cache =
  cache_entries :: "string \<Rightarrow> 'm option"
  cache_hits :: u64
  cache_misses :: u64

definition cache_default :: "'m metadata_cache" where
  "cache_default = \<lparr>cache_entries = (\<lambda>_. None), cache_hits = 0, cache_misses = 0\<rparr>"

definition cache_get :: "'m metadata_cache \<Rightarrow> string \<Rightarrow> 'm option \<times> 'm metadata_cache" where
  "cache_get c key =
     (case cache_entries c key of
        None \<Rightarrow> (None, c)
      | Some md \<Rightarrow> (Some md, c\<lparr>cache_hits := cache_hits c + 1\<rparr>))"

text \<open>An insertion publishes the entry under the lock and counts the miss after releasing it.\<close>

definition cache_publish :: "'m metadata_cache \<Rightarrow> string \<Rightarrow> 'm \<Rightarrow> 'm metadata_cache" where
  "cache_publish c key md = c\<lparr>cache_entries := (cache_entries c)(key \<mapsto> md)\<rparr>"

definition cache_count_miss :: "'m metadata_cache \<Rightarrow> 'm metadata_cache" where
  "cache_count_miss c = c\<lparr>cache_misses := cache_misses c + 1\<rparr>"

definition cache_insert :: "'m metadata_cache \<Rightarrow> string \<Rightarrow> 'm \<Rightarrow> 'm metadata_cache" where
  "cache_insert c key md = cache_count_miss (cache_publish c key md)"

definition cache_stats :: "'m metadata_cache \<Rightarrow> u64 \<times> u64" where
  "cache_stats c = (cache_hits c, cache_misses c)"

section \<open>Readers\<close>

record partitioned_file =
  file_location :: string
  object_size :: nat

record cached_reader =
  reader_key :: string
  reader_file_size :: nat
  reader_hint :: "nat option"

text \<open>\<open>metadata_size_hint.or(self.metadata_size_hint)\<close>.\<close>

definition create_reader :: "nat option \<Rightarrow> partitioned_file \<Rightarrow> nat option \<Rightarrow> cached_reader" where
  "create_reader factory_hint pf hint =
     \<lparr>reader_key = file_location pf, reader_file_size = object_size pf,
      reader_hint = (case hint of None \<Rightarrow> factory_hint | Some h \<Rightarrow> Some h)\<rparr>"

definition get_metadata ::
  "(string \<Rightarrow> 'o \<Rightarrow> pdq_error + 'm) \<Rightarrow> 'm metadata_cache \<Rightarrow> string \<Rightarrow> 'o
   \<Rightarrow> (pdq_error + 'm) \<times> 'm metadata_cache" where
  "get_metadata read_footer c key options =
     (case cache_get c key of
        (Some md, c') \<Rightarrow> (Inr md, c')
      | (None, c') \<Rightarrow>
          (case read_footer key options of
             Inl e \<Rightarrow> (Inl e, c')
           | Inr md \<Rightarrow> (Inr md, cache_insert c' key md)))"

text \<open>Lookups one after the other.\<close>

fun serve ::
  "(string \<Rightarrow> 'o \<Rightarrow> pdq_error + 'm) \<Rightarrow> 'm metadata_cache \<Rightarrow> (string \<times> 'o) list
   \<Rightarrow> (pdq_error + 'm) list \<times> 'm metadata_cache" where
  "serve read_footer c [] = ([], c)"
| "serve read_footer c ((key, options) # rs) =
     (case get_metadata read_footer c key options of
        (r, c') \<Rightarrow> (case serve read_footer c' rs of (out, c'') \<Rightarrow> (r # out, c'')))"

section \<open>Concurrent lookups\<close>

text \<open>Where a lookup stands: each constructor keeps what the future has captured by then.\<close>

datatype ('o, 'm) reader =
    Waiting string 'o
  | Missed string 'o
  | Parsed string 'm
  | Counting string 'm
  | Finished string 'm
  | Failed string pdq_error

inductive reader_step ::
  "(string \<Rightarrow> 'o \<Rightarrow> pdq_error + 'm)
   \<Rightarrow> 'm metadata_cache \<times> ('o, 'm) reader list \<Rightarrow> 'm metadata_cache \<times> ('o, 'm) reader list \<Rightarrow> bool"
  for read_footer where
  lookup_hit: "i < length rs \<Longrightarrow> rs ! i = Waiting key options \<Longrightarrow> cache_get c key = (Some md, c') \<Longrightarrow>
    reader_step read_footer (c, rs) (c', rs[i := Finished key md])"
| lookup_miss: "i < length rs \<Longrightarrow> rs ! i = Waiting key options \<Longrightarrow> cache_get c key = (None, c') \<Longrightarrow>
    reader_step read_footer (c, rs) (c', rs[i := Missed key options])"
| parse: "i < length rs \<Longrightarrow> rs ! i = Missed key options \<Longrightarrow> read_footer key options = Inr md \<Longrightarrow>
    reader_step read_footer (c, rs) (c, rs[i := Parsed key md])"
| parse_error: "i < length rs \<Longrightarrow> rs ! i = Missed key options \<Longrightarrow> read_footer key options = Inl e \<Longrightarrow>
    reader_step read_footer (c, rs) (c, rs[i := Failed key e])"
| publish: "i < length rs \<Longrightarrow> rs ! i = Parsed key md \<Longrightarrow>
    reader_step read_footer (c, rs) (cache_publish c key md, rs[i := Counting key md])"
| count: "i < length rs \<Longrightarrow> rs ! i = Counting key md \<Longrightarrow>
    reader_step read_footer (c, rs) (cache_count_miss c, rs[i := Finished key md])"

lemmas cache_defs =
  cache_default_def cache_get_def cache_publish_def cache_count_miss_def cache_insert_def cache_stats_def

text \<open>Every run starts with readers that wait, on a cache that may have entries already.\<close>

abbreviation reader_run ::
  "(string \<Rightarrow> 'o \<Rightarrow> pdq_error + 'm)
   \<Rightarrow> 'm metadata_cache \<times> ('o, 'm) reader list \<Rightarrow> 'm metadata_cache \<times> ('o, 'm) reader list \<Rightarrow> bool" where
  "reader_run read_footer \<equiv> (reader_step read_footer)\<^sup>*\<^sup>*"

inductive_cases reader_stepE: "reader_step read_footer (c, rs) s'"

section \<open>What concurrent lookups keep\<close>

text \<open>Metadata that parsing the footer of the key can give.\<close>

definition parse_of :: "(string \<Rightarrow> 'o \<Rightarrow> pdq_error + 'm) \<Rightarrow> string \<Rightarrow> 'm \<Rightarrow> bool" where
  "parse_of read_footer key md \<longleftrightarrow> (\<exists>options. read_footer key options = Inr md)"

fun reader_sound :: "(string \<Rightarrow> 'o \<Rightarrow> pdq_error + 'm) \<Rightarrow> ('o, 'm) reader \<Rightarrow> bool" where
  "reader_sound read_footer (Parsed key md) = parse_of read_footer key md"
| "reader_sound read_footer (Counting key md) = parse_of read_footer key md"
| "reader_sound read_footer (Finished key md) = parse_of read_footer key md"
| "reader_sound read_footer r = True"

fun finished :: "('o, 'm) reader \<Rightarrow> bool" where
  "finished (Finished key md) = True"
| "finished r = False"

definition cache_sound :: "(string \<Rightarrow> 'o \<Rightarrow> pdq_error + 'm) \<Rightarrow> 'm metadata_cache \<Rightarrow> bool" where
  "cache_sound read_footer c \<longleftrightarrow> (\<forall>key md. cache_entries c key = Some md \<longrightarrow> parse_of read_footer key md)"

definition readers_ok ::
  "(string \<Rightarrow> 'o \<Rightarrow> pdq_error + 'm) \<Rightarrow> 'm metadata_cache \<times> ('o, 'm) reader list \<Rightarrow> bool" where
  "readers_ok read_footer s \<longleftrightarrow>
     cache_sound read_footer (fst s) \<and> (\<forall>r \<in> set (snd s). reader_sound read_footer r)"

lemma readers_ok_step:
  assumes "reader_step read_footer s s'" "readers_ok read_footer s"
  shows "readers_ok read_footer s'"
  using assms
proof (induction rule: reader_step.induct)
  case (lookup_hit i rs key options c md c')
  then show ?case
    by (auto simp: readers_ok_def cache_sound_def cache_get_def split: option.splits
        dest!: set_update_subset_insert [THEN subsetD])
next
  case (publish i rs key md c)
  then have "parse_of read_footer key md"
    unfolding readers_ok_def by (metis nth_mem reader_sound.simps(1) snd_conv)
  with publish show ?case
    by (auto simp: readers_ok_def cache_sound_def cache_publish_def
        dest!: set_update_subset_insert [THEN subsetD])
next
  case (count i rs key md c)
  then have "parse_of read_footer key md"
    unfolding readers_ok_def by (metis nth_mem reader_sound.simps(2) snd_conv)
  with count show ?case
    by (auto simp: readers_ok_def cache_sound_def cache_count_miss_def
        dest!: set_update_subset_insert [THEN subsetD])
qed (auto simp: readers_ok_def cache_get_def parse_of_def split: option.splits
      dest!: set_update_subset_insert [THEN subsetD])

section \<open>Counting\<close>

definition n_finished :: "('o, 'm) reader list \<Rightarrow> nat" where
  "n_finished rs = length (filter finished rs)"

definition balance :: "'m metadata_cache \<times> ('o, 'm) reader list \<Rightarrow> u64" where
  "balance s = cache_hits (fst s) + cache_misses (fst s) - of_nat (n_finished (snd s))"

lemma n_finished_update:
  "i < length rs \<Longrightarrow> \<not> finished (rs ! i) \<Longrightarrow>
   n_finished (rs[i := r]) = n_finished rs + (if finished r then 1 else 0)"
  unfolding n_finished_def
proof (induction rs arbitrary: i)
  case (Cons x rs)
  then show ?case by (cases i) auto
qed simp

lemma balance_step: "reader_step read_footer s s' \<Longrightarrow> balance s' = balance s"
  by (induction rule: reader_step.induct)
     (auto simp: balance_def n_finished_update cache_defs split: option.splits)

lemma balance_run: "reader_run read_footer s s' \<Longrightarrow> balance s' = balance s"
  by (induction rule: rtranclp_induct) (auto simp: balance_step)

lemma readers_ok_run:
  "reader_run read_footer s s' \<Longrightarrow> readers_ok read_footer s \<Longrightarrow> readers_ok read_footer s'"
  by (induction rule: rtranclp_induct) (auto intro: readers_ok_step)

section \<open>Progress\<close>

text \<open>The steps a lookup still has to take, at most.\<close>

fun steps_left :: "('o, 'm) reader \<Rightarrow> nat" where
  "steps_left (Waiting key options) = 4"
| "steps_left (Missed key options) = 3"
| "steps_left (Parsed key md) = 2"
| "steps_left (Counting key md) = 1"
| "steps_left r = 0"

text \<open>A lookup that is not through can take a step, whatever the others do.\<close>

lemma reader_can_step:
  assumes "i < length rs" "0 < steps_left (rs ! i)"
  shows "\<exists>s'. reader_step read_footer (c, rs) s'"
proof (cases "rs ! i")
  case (Waiting key options)
  obtain x c' where "cache_get c key = (x, c')" by fastforce
  then show ?thesis
    using lookup_hit [OF assms(1) Waiting] lookup_miss [OF assms(1) Waiting] by (cases x) blast+
next
  case (Missed key options)
  then show ?thesis
    using parse [OF assms(1) Missed] parse_error [OF assms(1) Missed]
    by (cases "read_footer key options") blast+
next
  case (Parsed key md)
  then show ?thesis using publish [OF assms(1)] by blast
next
  case (Counting key md)
  then show ?thesis using count [OF assms(1)] by blast
qed (use assms(2) in simp_all)

lemma reader_step_moves_one:
  "reader_step read_footer (c, rs) (c', rs') \<Longrightarrow> \<exists>i < length rs. \<exists>r. rs' = rs[i := r] \<and> steps_left r < steps_left (rs ! i)"
  by (erule reader_stepE) force+

interpretation readers: task_pool "reader_step read_footer" steps_left for read_footer
  by unfold_locales (rule reader_step_moves_one reader_can_step; assumption)+

lemma steps_left_le: "steps_left r \<le> 4"
  by (cases r) simp_all

lemma steps_left_zero_iff:
  "steps_left r = 0 \<longleftrightarrow> (\<exists>key md. r = Finished key md) \<or> (\<exists>key e. r = Failed key e)"
  by (cases r) auto

section \<open>Lookups one after the other\<close>

text \<open>The footers are a read-through cache; loading never finds nothing.\<close>

interpretation footers: read_cache cache_entries cache_get cache_insert
  by unfold_locales (simp_all add: cache_defs split: option.split)

lemma get_metadata_read_through:
  "get_metadata read_footer c key options =
     map_prod (map_sum id the) id
       (read_through cache_get cache_insert (\<lambda>k. map_sum id Some (read_footer k options)) c key)"
  by (cases "read_footer key options") (auto simp: get_metadata_def read_through_def split: option.split prod.split)

lemma fst_get_metadata:
  "fst (get_metadata read_footer c key options) =
     (case cache_entries c key of Some md \<Rightarrow> Inr md | None \<Rightarrow> read_footer key options)"
  by (simp add: get_metadata_read_through footers.lookup_result sum.map_comp sum.map_id0 [unfolded id_def] comp_def
      split: option.split)

lemma entries_get_metadata:
  "dom (cache_entries (snd (get_metadata read_footer c key options))) =
     dom (cache_entries c) \<union> (if isl (fst (get_metadata read_footer c key options)) then {} else {key})"
  by (cases "read_footer key options")
     (auto simp: get_metadata_read_through footers.lookup_dom footers.lookup_result split: sum.splits option.splits)

text \<open>An entry stays as it is and serves every later lookup, whatever its options.\<close>

lemma get_metadata_cached:
  "cache_entries c key = Some md \<Longrightarrow>
   fst (get_metadata read_footer c key options) = Inr md
   \<and> cache_entries (snd (get_metadata read_footer c key' options')) key = Some md"
  by (simp add: get_metadata_read_through footers.hit footers.entry_stays)

lemma serve_cached:
  "cache_entries c key = Some md \<Longrightarrow> i < length rs \<Longrightarrow> fst (rs ! i) = key \<Longrightarrow>
   fst (serve read_footer c rs) ! i = Inr md"
proof (induction rs arbitrary: c i)
  case (Cons r rs)
  obtain key' options' where r: "r = (key', options')" by (cases r)
  note g = get_metadata_cached [OF Cons.prems(1), of read_footer options' key' options']
  show ?case
  proof (cases i)
    case 0
    with Cons.prems r get_metadata_cached [OF Cons.prems(1), of read_footer options'] show ?thesis
      by (auto split: prod.split)
  next
    case (Suc j)
    with Cons.IH [of "snd (get_metadata read_footer c key' options')" j] Cons.prems r g show ?thesis
      by (auto split: prod.split)
  qed
qed simp

text \<open>One step of the sequence, on caches whose entries are finitely many.\<close>

lemma get_metadata_count:
  assumes "finite (dom (cache_entries c))" "get_metadata read_footer c key options = (r, c')"
  shows "finite (dom (cache_entries c'))
    \<and> cache_misses c' - cache_misses c = of_nat (card (dom (cache_entries c'))) - of_nat (card (dom (cache_entries c)))
    \<and> cache_hits c' + cache_misses c' = cache_hits c + cache_misses c + (if isl r then 0 else 1)"
proof (cases "read_footer key options")
  case (Inl e)
  show ?thesis using assms unfolding get_metadata_def Inl by (auto simp: cache_defs split: option.splits)
next
  case (Inr md)
  show ?thesis using assms unfolding get_metadata_def Inr
    by (auto simp: cache_defs card_insert_if domIff split: option.splits)
qed

lemma serve_count:
  "finite (dom (cache_entries c)) \<Longrightarrow> serve read_footer c rs = (out, c') \<Longrightarrow>
   finite (dom (cache_entries c'))
   \<and> cache_misses c' - cache_misses c = of_nat (card (dom (cache_entries c'))) - of_nat (card (dom (cache_entries c)))
   \<and> cache_hits c' + cache_misses c' =
       cache_hits c + cache_misses c + of_nat (length (filter (\<lambda>r. \<not> isl r) out))"
proof (induction rs arbitrary: c out c')
  case (Cons r rs)
  obtain key options where r: "r = (key, options)" by (cases r)
  obtain x c1 where x: "get_metadata read_footer c key options = (x, c1)" by fastforce
  obtain out2 where s: "serve read_footer c1 rs = (out2, c')" "out = x # out2"
    using Cons.prems(2) r x by (auto split: prod.splits)
  from get_metadata_count [OF Cons.prems(1) x] have g: "finite (dom (cache_entries c1))"
    "cache_misses c1 - cache_misses c = of_nat (card (dom (cache_entries c1))) - of_nat (card (dom (cache_entries c)))"
    "cache_hits c1 + cache_misses c1 = cache_hits c + cache_misses c + (if isl x then 0 else 1)" by auto
  from Cons.IH [OF g(1) s(1)] have h: "finite (dom (cache_entries c'))"
    "cache_misses c' - cache_misses c1 = of_nat (card (dom (cache_entries c'))) - of_nat (card (dom (cache_entries c1)))"
    "cache_hits c' + cache_misses c' = cache_hits c1 + cache_misses c1 + of_nat (length (filter (\<lambda>r. \<not> isl r) out2))"
    by auto
  have "cache_misses c' - cache_misses c =
      (cache_misses c' - cache_misses c1) + (cache_misses c1 - cache_misses c)" by simp
  also have "\<dots> = of_nat (card (dom (cache_entries c'))) - of_nat (card (dom (cache_entries c)))"
    by (simp only: g(2) h(2)) simp
  finally show ?case using g(3) h(1,3) s(2) by simp
qed auto

lemma get_metadata_dom:
  "dom (cache_entries (snd (get_metadata read_footer c key options))) \<subseteq> insert key (dom (cache_entries c))"
  by (auto simp: entries_get_metadata)

lemma serve_dom:
  "dom (cache_entries (snd (serve read_footer c rs))) \<subseteq> dom (cache_entries c) \<union> fst ` set rs"
proof (induction rs arbitrary: c)
  case (Cons r rs)
  obtain key options where r: "r = (key, options)" by (cases r)
  let ?c = "snd (get_metadata read_footer c key options)"
  have "dom (cache_entries (snd (serve read_footer c (r # rs)))) = dom (cache_entries (snd (serve read_footer ?c rs)))"
    by (simp add: r split: prod.split)
  also have "\<dots> \<subseteq> dom (cache_entries ?c) \<union> fst ` set rs" by (rule Cons.IH)
  also have "\<dots> \<subseteq> insert key (dom (cache_entries c)) \<union> fst ` set rs"
    using get_metadata_dom [of read_footer c key options] by blast
  finally show ?case by (auto simp: r)
qed simp

end
