(* ===== verification/Provider.thy ===== *)
theory Provider
  imports Query_Engine Metadata_Cache
begin

text \<open>
  The table provider (\<open>src/provider.rs\<close>): which equality filters it looks up in the index
  (\<open>extract_equality_filter\<close>), how it intersects the row groups they give
  (\<open>prune_with_fst_index\<close>), and the scan it plans from them (\<open>scan\<close>).

  DataFusion and the operating system are parameters: the record \<open>scan_lib\<close> has what \<open>scan\<close>
  calls of them.  Expressions are kept to the shapes the code looks at, with every other
  expression under \<open>OtherExpr\<close>; a scalar is known by what its \<open>to_string\<close> gives.
\<close>

section \<open>Filters\<close>

datatype operator = Eq | OtherOperator

text \<open>\<open>Column\<close> has a name and a table reference the code ignores.\<close>

datatype ('v, 'x) expr =
    Column "string option" string
  | Literal 'v
  | BinaryExpr "('v, 'x) expr" operator "('v, 'x) expr"
  | OtherExpr 'x

fun extract_equality_filter :: "('v \<Rightarrow> string) \<Rightarrow> ('v, 'x) expr \<Rightarrow> (column \<times> string) option" where
  "extract_equality_filter to_string (BinaryExpr (Column relation name) Eq (Literal v)) =
     Some (name, to_string v)"
| "extract_equality_filter to_string (BinaryExpr (Literal v) Eq (Column relation name)) =
     Some (name, to_string v)"
| "extract_equality_filter to_string e = None"

section \<open>Pruning\<close>

type_synonym pruned = "(string \<times> nat list) list \<times> (string \<times> path) list"

text \<open>
  One match of a filter: the path is recorded under its hash, and the row groups are intersected
  with those earlier filters gave for the file.  A \<open>HashSet\<close> of row groups is a list without
  repetition.
\<close>

definition prune_match :: "file_matches \<Rightarrow> pruned \<Rightarrow> pruned" where
  "prune_match m pr =
     (let file_hash = calculate_file_hash (file_path m);
          row_group_set = remdups (row_groups m)
      in case pr of (file_row_groups, hash_to_path) \<Rightarrow>
        ((case map_of file_row_groups file_hash of
            Some present \<Rightarrow>
              AList.update file_hash (filter (\<lambda>g. g \<in> set row_group_set) present) file_row_groups
          | None \<Rightarrow> AList.update file_hash row_group_set file_row_groups),
         AList.update file_hash (file_path m) hash_to_path))"

text \<open>The loop over the filters; a filter whose search fails is passed over.\<close>

fun prune_filters ::
  "('b, 'f, 's) fst_lib \<Rightarrow> 'f world \<Rightarrow> ('v \<Rightarrow> string) \<Rightarrow> 's engine \<Rightarrow> ('v, 'x) expr list \<Rightarrow> pruned
   \<Rightarrow> pruned \<times> 's engine" where
  "prune_filters L w to_string e [] pr = (pr, e)"
| "prune_filters L w to_string e (f # fs) pr =
     (case extract_equality_filter to_string f of
        None \<Rightarrow> prune_filters L w to_string e fs pr
      | Some (column, value) \<Rightarrow>
          (case exact_search L w e column value of
             (Inl er, e') \<Rightarrow> prune_filters L w to_string e' fs pr
           | (Inr results, e') \<Rightarrow> prune_filters L w to_string e' fs (fold prune_match results pr)))"

definition prune_with_fst_index ::
  "('b, 'f, 's) fst_lib \<Rightarrow> 'f world \<Rightarrow> ('v \<Rightarrow> string) \<Rightarrow> 's engine \<Rightarrow> ('v, 'x) expr list
   \<Rightarrow> pruned \<times> 's engine" where
  "prune_with_fst_index L w to_string e filters =
     (case prune_filters L w to_string e filters ([], []) of
        ((file_row_groups, hash_to_path), e') \<Rightarrow>
          ((map (\<lambda>(h, rgs). (h, sort rgs)) file_row_groups, hash_to_path), e'))"

section \<open>Scanning\<close>

text \<open>
  What \<open>scan\<close> calls: the printed form of a literal (\<open>to_string\<close>), the projection check
  of the scan builder, the schema conversion, the conjunction of the filters as a physical
  predicate, the object store lookup, \<open>ParquetAccessPlan\<close>, the canonical form of a path, the file
  behind a canonical path, and the object store form of a path.
\<close>

record ('v, 'x, 'p, 'a, 'f) scan_lib =
  literal_string :: "'v \<Rightarrow> string"
  check_projection :: "nat list option \<Rightarrow> pdq_error + unit"
  df_schema :: "pdq_error + unit"
  expr_conjunction :: "('v, 'x) expr list \<Rightarrow> ('v, 'x) expr option"
  physical_expr :: "('v, 'x) expr \<Rightarrow> pdq_error + 'p"
  lit_true :: 'p
  find_object_store :: "pdq_error + unit"
  plan_none :: "nat \<Rightarrow> 'a"
  plan_scan :: "'a \<Rightarrow> nat \<Rightarrow> 'a"
  plan_indexes :: "'a \<Rightarrow> nat list"
  canonicalize :: "'f world \<Rightarrow> path \<Rightarrow> path option"
  file_behind :: "'f world \<Rightarrow> path \<Rightarrow> pfile option"
  store_path :: "path \<Rightarrow> string option"

record ('p, 'a) scan_config =
  scan_projection :: "nat list option"
  scan_limit :: "nat option"
  scan_predicate :: "'p option"
  scan_pushdown :: bool
  scan_size_hint :: "nat option"
  scan_files :: "(partitioned_file \<times> 'a) list"

record ('s, 'sch, 'm) provider =
  index_engine :: "'s engine"
  table_schema :: 'sch
  table_name :: string
  row_selections :: bool
  metadata_size_hint :: "nat option"
  metadata_cache :: "'m metadata_cache"

text \<open>
  The count recorded at index time; else the footer is read, whose errors become plan errors.
\<close>

definition row_group_count ::
  "('v, 'x, 'p, 'a, 'f) scan_lib \<Rightarrow> 'f world \<Rightarrow> 's engine \<Rightarrow> string \<Rightarrow> path \<Rightarrow> pdq_error + nat" where
  "row_group_count S w e file_hash canonical_path =
     (case num_row_groups e file_hash of
        Some n \<Rightarrow> Inr n
      | None \<Rightarrow>
          (case file_behind S w canonical_path of
             None \<Rightarrow> Inl (PlanError ''Failed to open'')
           | Some f \<Rightarrow>
               (case contents f of
                  Inl er \<Rightarrow> Inl (PlanError ''Failed to read footer'')
                | Inr rgs \<Rightarrow> Inr (length rgs))))"

text \<open>The access plan of one file: matched row groups past the end of the file are dropped.\<close>

definition access_plan :: "('v, 'x, 'p, 'a, 'f) scan_lib \<Rightarrow> nat \<Rightarrow> nat list \<Rightarrow> 'a" where
  "access_plan S total_rgs rgs =
     foldl (\<lambda>plan rg. if rg < total_rgs then plan_scan S plan rg else plan) (plan_none S total_rgs) rgs"

text \<open>One round of the file loop: \<open>None\<close> where the code continues with the next file.\<close>

definition plan_file ::
  "('v, 'x, 'p, 'a, 'f) scan_lib \<Rightarrow> 'f world \<Rightarrow> 's engine \<Rightarrow> (string \<times> path) list
   \<Rightarrow> string \<Rightarrow> nat list \<Rightarrow> pdq_error + (partitioned_file \<times> 'a) option" where
  "plan_file S w e hash_to_path file_hash rgs =
     (if rgs = [] then Inr None
      else case map_of hash_to_path file_hash of
        None \<Rightarrow> Inr None
      | Some p \<Rightarrow>
     (case canonicalize S w p of
        None \<Rightarrow> Inr None
      | Some canonical_path \<Rightarrow>
     (let file_size = (case file_behind S w canonical_path of None \<Rightarrow> 0 | Some f \<Rightarrow> fsize f)
      in case row_group_count S w e file_hash canonical_path of
        Inl er \<Rightarrow> Inl er
      | Inr total_rgs \<Rightarrow>
     (let plan = access_plan S total_rgs rgs
      in if plan_indexes S plan = [] then Inr None
         else case store_path S canonical_path of
           None \<Rightarrow> Inr None
         | Some location \<Rightarrow> Inr (Some (\<lparr>file_location = location, object_size = file_size\<rparr>, plan))))))"

fun plan_files ::
  "('v, 'x, 'p, 'a, 'f) scan_lib \<Rightarrow> 'f world \<Rightarrow> 's engine \<Rightarrow> (string \<times> path) list
   \<Rightarrow> (string \<times> nat list) list \<Rightarrow> pdq_error + (partitioned_file \<times> 'a) list" where
  "plan_files S w e hash_to_path [] = Inr []"
| "plan_files S w e hash_to_path ((file_hash, rgs) # rest) =
     (case plan_file S w e hash_to_path file_hash rgs of
        Inl er \<Rightarrow> Inl er
      | Inr planned \<Rightarrow>
          (case plan_files S w e hash_to_path rest of
             Inl er \<Rightarrow> Inl er
           | Inr fs \<Rightarrow> Inr (case planned of None \<Rightarrow> fs | Some f \<Rightarrow> f # fs)))"

text \<open>The predicate: the conjunction of the filters, or \<open>true\<close> when there is none.\<close>

definition scan_filter :: "('v, 'x, 'p, 'a, 'f) scan_lib \<Rightarrow> ('v, 'x) expr list \<Rightarrow> pdq_error + 'p" where
  "scan_filter S filters =
     (case expr_conjunction S filters of None \<Rightarrow> Inr (lit_true S) | Some p \<Rightarrow> physical_expr S p)"

definition scan ::
  "('b, 'f, 's) fst_lib \<Rightarrow> ('v, 'x, 'p, 'a, 'f) scan_lib \<Rightarrow> 'f world \<Rightarrow> ('s, 'sch, 'm) provider
   \<Rightarrow> nat list option \<Rightarrow> ('v, 'x) expr list \<Rightarrow> nat option
   \<Rightarrow> (pdq_error + ('p, 'a) scan_config) \<times> ('s, 'sch, 'm) provider" where
  "scan L S w pv projection filters limit =
     (case prune_with_fst_index L w (literal_string S) (index_engine pv) filters of
        ((file_row_groups, hash_to_path), e) \<Rightarrow>
          (let pv' = pv\<lparr>index_engine := e\<rparr> in
           if file_row_groups = [] then
             (case check_projection S projection of
                Inl er \<Rightarrow> (Inl er, pv')
              | Inr _ \<Rightarrow>
                  (Inr \<lparr>scan_projection = projection, scan_limit = limit, scan_predicate = None,
                        scan_pushdown = False, scan_size_hint = None, scan_files = []\<rparr>, pv'))
           else
             (case df_schema S of
                Inl er \<Rightarrow> (Inl er, pv')
              | Inr _ \<Rightarrow>
             (case scan_filter S filters of
                Inl er \<Rightarrow> (Inl er, pv')
              | Inr predicate \<Rightarrow>
             (case find_object_store S of
                Inl er \<Rightarrow> (Inl er, pv')
              | Inr _ \<Rightarrow>
             (case check_projection S projection of
                Inl er \<Rightarrow> (Inl er, pv')
              | Inr _ \<Rightarrow>
             (case plan_files S w e hash_to_path file_row_groups of
                Inl er \<Rightarrow> (Inl er, pv')
              | Inr fs \<Rightarrow>
                  (Inr \<lparr>scan_projection = projection, scan_limit = limit, scan_predicate = Some predicate,
                        scan_pushdown = True, scan_size_hint = metadata_size_hint pv, scan_files = fs\<rparr>,
                   pv'))))))))"

datatype pushdown = Inexact | Exact | Unsupported

definition supports_filters_pushdown :: "('v, 'x) expr list \<Rightarrow> pushdown list" where
  "supports_filters_pushdown filters = replicate (length filters) Inexact"

section \<open>Building a provider\<close>

definition DEFAULT_METADATA_SIZE_HINT :: nat where
  "DEFAULT_METADATA_SIZE_HINT = 512 * 1024"

text \<open>
  Reading the schema of a file and merging two schemas are parameters.
\<close>

record 'sch schema_lib =
  file_schema :: "pfile \<Rightarrow> pdq_error + 'sch"
  try_merge :: "'sch \<Rightarrow> 'sch \<Rightarrow> pdq_error + 'sch"

definition infer_schema_from_file :: "'sch schema_lib \<Rightarrow> 'f world \<Rightarrow> path \<Rightarrow> pdq_error + 'sch" where
  "infer_schema_from_file C w p =
     (case map_of (data w) p of None \<Rightarrow> Inl NotFound | Some f \<Rightarrow> file_schema C f)"

fun merge_schemas :: "'sch schema_lib \<Rightarrow> 'sch \<Rightarrow> 'sch list \<Rightarrow> pdq_error + 'sch" where
  "merge_schemas C merged [] = Inr merged"
| "merge_schemas C merged (s # ss) =
     (case try_merge C merged s of Inl e \<Rightarrow> Inl e | Inr m \<Rightarrow> merge_schemas C m ss)"

definition infer_schema_from_directory :: "'sch schema_lib \<Rightarrow> 'f world \<Rightarrow> path \<Rightarrow> pdq_error + 'sch" where
  "infer_schema_from_directory C w data_dir =
     (case walk_parquet w data_dir of
        [] \<Rightarrow> Inl (Missing ''No Parquet files found in directory'')
      | p # ps \<Rightarrow>
          (case collect_results (map (infer_schema_from_file C w) (p # ps)) of
             Inl e \<Rightarrow> Inl e
           | Inr schemas \<Rightarrow> merge_schemas C (hd schemas) (tl schemas)))"

definition provider_new ::
  "'sch schema_lib \<Rightarrow> 'f world \<Rightarrow> 's engine \<Rightarrow> path \<Rightarrow> string \<Rightarrow> bool \<Rightarrow> pdq_error + ('s, 'sch, 'm) provider" where
  "provider_new C w e data_dir name selections =
     (case infer_schema_from_directory C w data_dir of
        Inl er \<Rightarrow> Inl er
      | Inr schema \<Rightarrow>
          Inr \<lparr>index_engine = e, table_schema = schema, table_name = name, row_selections = selections,
               metadata_size_hint = Some DEFAULT_METADATA_SIZE_HINT, metadata_cache = cache_default\<rparr>)"

definition set_metadata_size_hint ::
  "nat option \<Rightarrow> ('s, 'sch, 'm) provider \<Rightarrow> ('s, 'sch, 'm) provider" where
  "set_metadata_size_hint hint pv = pv\<lparr>metadata_size_hint := hint\<rparr>"

definition set_use_row_selection :: "bool \<Rightarrow> ('s, 'sch, 'm) provider \<Rightarrow> ('s, 'sch, 'm) provider" where
  "set_use_row_selection selections pv = pv\<lparr>row_selections := selections\<rparr>"

definition metadata_cache_stats :: "('s, 'sch, 'm) provider \<Rightarrow> u64 \<times> u64" where
  "metadata_cache_stats pv = cache_stats (metadata_cache pv)"

record provider_builder =
  b_index_dir :: "path option"
  b_data_dir :: "path option"
  b_table_name :: "string option"
  b_row_selections :: bool

definition builder_default :: provider_builder where
  "builder_default =
     \<lparr>b_index_dir = None, b_data_dir = None, b_table_name = None, b_row_selections = False\<rparr>"

definition with_index_dir :: "path \<Rightarrow> provider_builder \<Rightarrow> provider_builder" where
  "with_index_dir dir b = b\<lparr>b_index_dir := Some dir\<rparr>"

definition with_data_dir :: "path \<Rightarrow> provider_builder \<Rightarrow> provider_builder" where
  "with_data_dir dir b = b\<lparr>b_data_dir := Some dir\<rparr>"

definition with_table_name :: "string \<Rightarrow> provider_builder \<Rightarrow> provider_builder" where
  "with_table_name name b = b\<lparr>b_table_name := Some name\<rparr>"

definition with_row_selections :: "bool \<Rightarrow> provider_builder \<Rightarrow> provider_builder" where
  "with_row_selections enabled b = b\<lparr>b_row_selections := enabled\<rparr>"

definition provider_build ::
  "'sch schema_lib \<Rightarrow> 'f world \<Rightarrow> provider_builder \<Rightarrow> pdq_error + ('s, 'sch, 'm) provider" where
  "provider_build C w b =
     (case b_index_dir b of
        None \<Rightarrow> Inl (Missing ''Index directory is required'')
      | Some dir \<Rightarrow>
          (case b_data_dir b of
             None \<Rightarrow> Inl (Missing ''Data directory is required'')
           | Some data_dir \<Rightarrow>
               provider_new C w (engine_new w dir) data_dir
                 (case b_table_name b of None \<Rightarrow> ''pdq_table'' | Some name \<Rightarrow> name) (b_row_selections b)))"

end
