(* ===== verification/Provider_Query.thy ===== *)
theory Provider_Query
  imports Index_Query Provider
begin

text \<open>
  The table provider on a current index: the row groups the pruning leaves for a file are the
  intersection of the hits of those equality filters that hit the file at all, and the scan plans
  them for every file that is still there.
\<close>

section \<open>Intersections\<close>

fun combine :: "nat set option \<Rightarrow> nat set \<Rightarrow> nat set option" where
  "combine None X = Some X"
| "combine (Some Y) X = Some (Y \<inter> X)"

lemma fold_combine:
  "fold (\<lambda>X acc. combine acc X) Xs (Some Y) = Some (Y \<inter> \<Inter> (set Xs))"
  by (induction Xs arbitrary: Y) auto

lemma fold_combine_None:
  "fold (\<lambda>X acc. combine acc X) Xs None = (if Xs = [] then None else Some (\<Inter> (set Xs)))"
  by (cases Xs) (auto simp: fold_combine)

text \<open>The row groups recorded for a hash.\<close>

definition groups_at :: "pruned \<Rightarrow> string \<Rightarrow> nat set option" where
  "groups_at pr h = map_option set (map_of (fst pr) h)"

lemma groups_at_prune_match:
  "groups_at (prune_match m pr) h =
     (if calculate_file_hash (file_path m) = h then combine (groups_at pr h) (set (row_groups m))
      else groups_at pr h)"
  by (cases pr) (auto simp: prune_match_def groups_at_def Let_def update_conv' split: option.split)

text \<open>Invariants of the two maps.\<close>

definition pruned_ok :: "path set \<Rightarrow> pruned \<Rightarrow> bool" where
  "pruned_ok S pr \<longleftrightarrow>
     distinct (map fst (fst pr))
     \<and> (\<forall>(h, rgs) \<in> set (fst pr). distinct rgs \<and> (\<exists>p \<in> S. h = calculate_file_hash p \<and> map_of (snd pr) h = Some p))"

lemma distinct_update_key: "distinct (map fst m) \<Longrightarrow> distinct (map fst (AList.update k v m))"
  by (rule distinct_update)

lemma pruned_ok_prune_match:
  assumes ok: "pruned_ok S pr" and S: "file_path m \<in> S" and inj: "inj_on calculate_file_hash S"
  shows "pruned_ok S (prune_match m pr)"
proof -
  obtain frg htp where pr: "pr = (frg, htp)" by (cases pr)
  let ?h = "calculate_file_hash (file_path m)"
  define new where "new = (case map_of frg ?h of
      Some present \<Rightarrow> filter (\<lambda>g. g \<in> set (remdups (row_groups m))) present
    | None \<Rightarrow> remdups (row_groups m))"
  have pm: "prune_match m pr = (AList.update ?h new frg, AList.update ?h (file_path m) htp)"
    by (auto simp: prune_match_def pr Let_def new_def split: option.split)
  have d: "distinct (map fst frg)" using ok by (simp add: pruned_ok_def pr)
  have dn: "distinct new"
    using ok by (auto simp: new_def pruned_ok_def pr split: option.split dest!: map_of_SomeD)
  have "distinct rgs \<and> (\<exists>p \<in> S. h = calculate_file_hash p \<and> map_of (AList.update ?h (file_path m) htp) h = Some p)"
    if "(h, rgs) \<in> set (AList.update ?h new frg)" for h rgs
  proof -
    have "distinct (map fst (AList.update ?h new frg))" using d by (rule distinct_update)
    with that have m: "map_of (AList.update ?h new frg) h = Some rgs" by simp
    show ?thesis
    proof (cases "h = ?h")
      case True
      with m dn S show ?thesis by (auto simp: update_conv')
    next
      case False
      with m have "(h, rgs) \<in> set frg" by (auto simp: update_conv' dest: map_of_SomeD)
      with ok False show ?thesis by (fastforce simp: pruned_ok_def pr update_conv')
    qed
  qed
  with d show ?thesis by (auto simp: pruned_ok_def pm distinct_update)
qed

lemma pruned_ok_fold:
  "pruned_ok S pr \<Longrightarrow> \<forall>m \<in> set ms. file_path m \<in> S \<Longrightarrow> inj_on calculate_file_hash S \<Longrightarrow>
   pruned_ok S (fold prune_match ms pr)"
proof (induction ms arbitrary: pr)
  case (Cons m ms)
  from Cons.prems have "pruned_ok S (prune_match m pr)" by (intro pruned_ok_prune_match) auto
  from Cons.IH [OF this] Cons.prems show ?case by simp
qed simp

lemma groups_at_fold:
  assumes "inj_on calculate_file_hash S" "p \<in> S" "\<forall>m \<in> set ms. file_path m \<in> S" "distinct (map file_path ms)"
  shows "groups_at (fold prune_match ms pr) (calculate_file_hash p) =
    (case find (\<lambda>m. file_path m = p) ms of
       None \<Rightarrow> groups_at pr (calculate_file_hash p)
     | Some m \<Rightarrow> combine (groups_at pr (calculate_file_hash p)) (set (row_groups m)))"
  using assms(3,4)
proof (induction ms arbitrary: pr)
  case (Cons m ms)
  have eq: "calculate_file_hash (file_path m) = calculate_file_hash p \<longleftrightarrow> file_path m = p"
    using assms(1,2) Cons.prems(1) by (auto simp: inj_on_def)
  have "find (\<lambda>m. file_path m = p) ms = None" if "file_path m = p"
  proof -
    have "p \<notin> file_path ` set ms" using Cons.prems(2) that by auto
    then show ?thesis unfolding find_None_iff by blast
  qed
  with Cons eq show ?case by (auto simp: groups_at_prune_match split: option.split)
qed simp

section \<open>One search\<close>

lemma exact_search_opened:
  assumes "opened_on L w root e"
  shows "opened_on L w root (snd (exact_search L w e column v))"
proof -
  from assms have "coherent L w e" "same_index (engine_new w root) e" by (auto simp: opened_on_def)
  with search_all_coherent [of L w e column "search_set L v"] same_index_trans
  show ?thesis by (fastforce simp: opened_on_def exact_search_def)
qed

text \<open>The matches of a current column, as a change of the recorded row groups of a file.\<close>

lemma groups_at_search:
  assumes cur: "all_current L H S w root column" and e: "opened_on L w root e"
    and p: "p \<in> S" "map_of (data w) p = Some f"
    and r: "exact_search L w e column v = (Inr ms, e')"
  shows "groups_at (fold prune_match ms pr) (calculate_file_hash p) =
    (let X = set (hit_row_groups (exact_hit v) (file_pairs column f))
     in if X = {} then groups_at pr (calculate_file_hash p)
        else combine (groups_at pr (calculate_file_hash p)) X)"
    and "\<forall>m \<in> set ms. file_path m \<in> S"
proof -
  have inj: "inj_on calculate_file_hash S" using cur by (simp add: all_current_def buildable_def)
  from exact_search_current [OF cur e, of v] r have a: "answers w S column (exact_hit v) ms" by auto
  have dist: "distinct (map file_path ms)"
    using exact.current_search_once [OF cur TrueI e] r by (simp add: exact_search_def)
  show S: "\<forall>m \<in> set ms. file_path m \<in> S" using a by (auto simp: answers_def)
  let ?X = "hit_row_groups (exact_hit v) (file_pairs column f)"
  show "groups_at (fold prune_match ms pr) (calculate_file_hash p) =
    (let X = set ?X in if X = {} then groups_at pr (calculate_file_hash p)
        else combine (groups_at pr (calculate_file_hash p)) X)"
  proof (cases "find (\<lambda>m. file_path m = p) ms")
    case None
    have "?X = []"
    proof (rule ccontr)
      assume "?X \<noteq> []"
      with a p have "\<lparr>file_path = p, row_groups = ?X\<rparr> \<in> set ms" by (simp add: answers_def)
      with None show False by (force simp: find_None_iff)
    qed
    with None groups_at_fold [OF inj p(1) S dist] show ?thesis by simp
  next
    case (Some m)
    then have m: "m \<in> set ms" "file_path m = p" by (auto simp: find_Some_iff)
    with a p have "row_groups m = ?X" "?X \<noteq> []" by (auto simp: answers_def)
    with Some groups_at_fold [OF inj p(1) S dist] show ?thesis by (simp add: Let_def)
  qed
qed

section \<open>All filters\<close>

text \<open>The lookups the filters ask for, in order.\<close>

definition lookups :: "('v \<Rightarrow> string) \<Rightarrow> ('v, 'x) expr list \<Rightarrow> (column \<times> string) list" where
  "lookups to_string filters = List.map_filter (extract_equality_filter to_string) filters"

lemma lookups_simps [simp]:
  "lookups to_string [] = []"
  "lookups to_string (f # fs) =
     (case extract_equality_filter to_string f of None \<Rightarrow> lookups to_string fs | Some q \<Rightarrow> q # lookups to_string fs)"
  by (simp_all add: lookups_def map_filter_simps split: option.split)

text \<open>A search that gives nothing: it fails, or it reports no file (for instance without an index).\<close>

definition silent :: "('b, 'f, 's) fst_lib \<Rightarrow> 'f world \<Rightarrow> path \<Rightarrow> column \<Rightarrow> string \<Rightarrow> bool" where
  "silent L w root column v \<longleftrightarrow>
     (case fst (exact_search L w (engine_new w root) column v) of Inl er \<Rightarrow> True | Inr ms \<Rightarrow> ms = [])"

text \<open>Each lookup is of a current column, or silent.\<close>

definition lookups_served ::
  "('b, 'f, 's) fst_lib \<Rightarrow> (path \<Rightarrow> pfile set) \<Rightarrow> path set \<Rightarrow> 'f world \<Rightarrow> path \<Rightarrow> (column \<Rightarrow> bool)
   \<Rightarrow> (column \<times> string) list \<Rightarrow> bool" where
  "lookups_served L H S w root indexed qs \<longleftrightarrow>
     (\<forall>(column, v) \<in> set qs.
        if indexed column then all_current L H S w root column else silent L w root column v)"

text \<open>The hits of the lookups of indexed columns in a file, those without a hit left out.\<close>

definition file_hits :: "(column \<Rightarrow> bool) \<Rightarrow> pfile \<Rightarrow> (column \<times> string) list \<Rightarrow> nat set list" where
  "file_hits indexed f qs =
     filter (\<lambda>X. X \<noteq> {})
       (map (\<lambda>(column, v). set (hit_row_groups (exact_hit v) (file_pairs column f)))
         (filter (\<lambda>(column, v). indexed column) qs))"

lemma file_hits_simps [simp]:
  "file_hits indexed f [] = []"
  "file_hits indexed f ((column, v) # qs) =
     (let X = set (hit_row_groups (exact_hit v) (file_pairs column f))
      in if indexed column \<and> X \<noteq> {} then X # file_hits indexed f qs else file_hits indexed f qs)"
  by (simp_all add: file_hits_def Let_def)

lemma exact_search_silent:
  assumes "silent L w root column v" "opened_on L w root e"
  shows "(\<exists>er. fst (exact_search L w e column v) = Inl er) \<or> fst (exact_search L w e column v) = Inr []"
proof -
  from opened_search_all [OF assms(2)]
  have "fst (exact_search L w e column v) = fst (exact_search L w (engine_new w root) column v)"
    by (simp add: exact_search_def)
  with assms(1) show ?thesis by (auto simp: silent_def split: sum.splits)
qed

lemma prune_filters_groups:
  fixes L :: "('b, 'f, 's) fst_lib"
  assumes inj: "inj_on calculate_file_hash S"
  shows "lookups_served L H S w root indexed (lookups to_string filters) \<Longrightarrow> opened_on L w root e \<Longrightarrow>
    pruned_ok S pr \<Longrightarrow> prune_filters L w to_string e filters pr = (pr', e') \<Longrightarrow>
    opened_on L w root e' \<and> pruned_ok S pr'
    \<and> (\<forall>p \<in> S. \<forall>f. map_of (data w) p = Some f \<longrightarrow>
         groups_at pr' (calculate_file_hash p) =
           fold (\<lambda>X acc. combine acc X) (file_hits indexed f (lookups to_string filters))
             (groups_at pr (calculate_file_hash p)))"
proof (induction filters arbitrary: e pr)
  case (Cons flt fs)
  show ?case
  proof (cases "extract_equality_filter to_string flt")
    case None
    with Cons.IH [OF _ Cons.prems(2,3)] Cons.prems(1,4) show ?thesis by simp
  next
    case (Some q)
    obtain column v where q: "q = (column, v)" by (cases q)
    from Cons.prems(1) Some q have served: "lookups_served L H S w root indexed (lookups to_string fs)"
      and one: "if indexed column then all_current L H S w root column else silent L w root column v"
      by (simp_all add: lookups_served_def)
    obtain r e1 where r: "exact_search L w e column v = (r, e1)" by fastforce
    have e1: "opened_on L w root e1" using exact_search_opened [OF Cons.prems(2), of column v] r by simp
    show ?thesis
    proof (cases "indexed column")
      case True
      with one have cur: "all_current L H S w root column" by simp
      from exact_search_current [OF cur Cons.prems(2), of v] r obtain ms where ms: "r = Inr ms" by auto
      note g = groups_at_search [OF cur Cons.prems(2) _ _ r [unfolded ms]]
      have inS: "\<forall>m \<in> set ms. file_path m \<in> S"
        using exact_search_current [OF cur Cons.prems(2), of v] r ms by (auto simp: answers_def)
      have ok: "pruned_ok S (fold prune_match ms pr)" by (rule pruned_ok_fold [OF Cons.prems(3) inS inj])
      have "prune_filters L w to_string e1 fs (fold prune_match ms pr) = (pr', e')"
        using Cons.prems(4) Some q r ms by simp
      from Cons.IH [OF served e1 ok this] g(1) True Some q show ?thesis by (simp add: Let_def)
    next
      case False
      with one have "silent L w root column v" by simp
      from exact_search_silent [OF this Cons.prems(2)] r have "(\<exists>er. r = Inl er) \<or> r = Inr []" by simp
      then have "prune_filters L w to_string e1 fs pr = (pr', e')"
        using Cons.prems(4) Some q r by auto
      from Cons.IH [OF served e1 Cons.prems(3) this] False Some q show ?thesis by (simp add: Let_def)
    qed
  qed
qed simp

text \<open>The result of the pruning.\<close>

lemma prune_with_fst_index_groups:
  assumes inj: "inj_on calculate_file_hash S"
    and served: "lookups_served L H S w root indexed (lookups to_string filters)"
    and e: "opened_on L w root e"
  shows "\<exists>frg htp e'. prune_with_fst_index L w to_string e filters = ((frg, htp), e')
    \<and> opened_on L w root e' \<and> distinct (map fst frg)
    \<and> (\<forall>(h, rgs) \<in> set frg. \<exists>p \<in> S. h = calculate_file_hash p \<and> map_of htp h = Some p
         \<and> sorted rgs \<and> distinct rgs)
    \<and> (\<forall>p \<in> S. \<forall>f. map_of (data w) p = Some f \<longrightarrow>
         map_of frg (calculate_file_hash p) =
           (let Xs = file_hits indexed f (lookups to_string filters)
            in if Xs = [] then None else Some (sorted_list_of_set (\<Inter> (set Xs)))))"
proof -
  obtain frg htp e' where pf: "prune_filters L w to_string e filters ([], []) = ((frg, htp), e')"
    by (metis surj_pair)
  have "pruned_ok S ([], [])" by (simp add: pruned_ok_def)
  from prune_filters_groups [OF inj served e this pf]
  have r: "opened_on L w root e'" "pruned_ok S (frg, htp)"
    "\<And>p f. p \<in> S \<Longrightarrow> map_of (data w) p = Some f \<Longrightarrow>
       map_option set (map_of frg (calculate_file_hash p)) =
         (let Xs = file_hits indexed f (lookups to_string filters)
          in if Xs = [] then None else Some (\<Inter> (set Xs)))"
    by (auto simp: groups_at_def fold_combine_None Let_def)
  let ?frg = "map (\<lambda>(h, rgs). (h, sort rgs)) frg"
  have lk: "map_of ?frg h = map_option sort (map_of frg h)" for h
    by (induction frg) auto
  have "map_of ?frg (calculate_file_hash p) =
      (let Xs = file_hits indexed f (lookups to_string filters)
       in if Xs = [] then None else Some (sorted_list_of_set (\<Inter> (set Xs))))"
    if p: "p \<in> S" "map_of (data w) p = Some f" for p f
  proof (cases "map_of frg (calculate_file_hash p)")
    case None
    with r(3) [OF p] show ?thesis by (auto simp: lk Let_def split: if_splits)
  next
    case (Some rgs)
    with r(2) have d: "distinct rgs" by (auto simp: pruned_ok_def dest: map_of_SomeD)
    from r(3) [OF p] Some have "file_hits indexed f (lookups to_string filters) \<noteq> []"
      and rgs: "set rgs = \<Inter> (set (file_hits indexed f (lookups to_string filters)))"
      by (auto simp: Let_def split: if_splits)
    with d Some show ?thesis
      by (simp add: lk Let_def sorted_list_of_set_sort_remdups distinct_remdups_id flip: rgs)
  qed
  moreover have "\<forall>(h, rgs) \<in> set ?frg. \<exists>p \<in> S. h = calculate_file_hash p \<and> map_of htp h = Some p
      \<and> sorted rgs \<and> distinct rgs"
    using r(2) by (auto simp: pruned_ok_def)
  moreover have "distinct (map fst ?frg)"
    using r(2) by (simp add: pruned_ok_def comp_def case_prod_unfold)
  ultimately show ?thesis
    using r(1) by (auto simp: prune_with_fst_index_def pf)
qed

section \<open>The scan\<close>

text \<open>\<open>ParquetAccessPlan\<close>: a plan starts with no row group and lists those that \<open>scan\<close> added.\<close>

definition plan_ok :: "('v, 'x, 'p, 'a, 'f) scan_lib \<Rightarrow> bool" where
  "plan_ok S \<longleftrightarrow>
     (\<forall>n rgs. (\<forall>r \<in> set rgs. r < n) \<longrightarrow>
        plan_indexes S (foldl (plan_scan S) (plan_none S n) rgs) = sorted_list_of_set (set rgs))"

text \<open>
  A data file has a canonical path that leads to it and that the object store can express; a path
  without a file has none.
\<close>

definition paths_ok :: "('v, 'x, 'p, 'a, 'f) scan_lib \<Rightarrow> 'f world \<Rightarrow> bool" where
  "paths_ok S w \<longleftrightarrow>
     (\<forall>p. case map_of (data w) p of
        None \<Rightarrow> canonicalize S w p = None
      | Some f \<Rightarrow> \<exists>q loc. canonicalize S w p = Some q \<and> file_behind S w q = Some f \<and> store_path S q = Some loc)"

text \<open>The session accepts the schema, the filters and the projection.\<close>

definition session_ok ::
  "('v, 'x, 'p, 'a, 'f) scan_lib \<Rightarrow> ('v, 'x) expr list \<Rightarrow> nat list option \<Rightarrow> bool" where
  "session_ok S filters projection \<longleftrightarrow>
     df_schema S = Inr () \<and> find_object_store S = Inr () \<and> check_projection S projection = Inr ()
     \<and> \<not> isl (scan_filter S filters)"

lemma foldl_if_filter: "foldl (\<lambda>a x. if P x then g a x else a) b xs = foldl g b (filter P xs)"
  by (induction xs arbitrary: b) auto

lemma access_plan_indexes:
  "plan_ok S \<Longrightarrow> plan_indexes S (access_plan S n rgs) = sorted_list_of_set {r \<in> set rgs. r < n}"
  by (simp add: access_plan_def foldl_if_filter plan_ok_def)

text \<open>
  The entry of the scan for a file that was \<open>f\<close> when it was indexed and is \<open>g\<close> now; and for a file
  that has not changed.
\<close>

definition planned_entry ::
  "('v, 'x, 'p, 'a, 'f) scan_lib \<Rightarrow> 'f world \<Rightarrow> path \<Rightarrow> pfile \<Rightarrow> pfile \<Rightarrow> nat set \<Rightarrow> partitioned_file \<times> 'a" where
  "planned_entry S w p f g X =
     (\<lparr>file_location = the (store_path S (the (canonicalize S w p))), object_size = fsize g\<rparr>,
      access_plan S (num_row_groups_of f) (sorted_list_of_set X))"

definition scan_entry ::
  "('v, 'x, 'p, 'a, 'f) scan_lib \<Rightarrow> 'f world \<Rightarrow> path \<Rightarrow> pfile \<Rightarrow> nat set \<Rightarrow> partitioned_file \<times> 'a" where
  "scan_entry S w p f X =
     (\<lparr>file_location = the (store_path S (the (canonicalize S w p))), object_size = fsize f\<rparr>,
      access_plan S (num_row_groups_of f) (sorted_list_of_set X))"

lemma planned_entry_same: "planned_entry S w p f f X = scan_entry S w p f X"
  by (simp add: planned_entry_def scan_entry_def)

lemma planned_entry_indexes:
  assumes "plan_ok S" "X \<subseteq> {..<num_row_groups_of f}"
  shows "set (plan_indexes S (snd (planned_entry S w p f g X))) = X"
proof -
  have "finite X" by (rule finite_subset [OF assms(2)]) simp
  then have "{r \<in> set (sorted_list_of_set X). r < num_row_groups_of f} = X" using assms(2) by auto
  with \<open>finite X\<close> show ?thesis by (simp add: planned_entry_def access_plan_indexes [OF assms(1)])
qed

lemma plan_file_indexed:
  assumes "map_of htp h = Some p" "map_of (data w) p = Some g" "paths_ok S w" "plan_ok S"
    "num_row_groups e h = Some (num_row_groups_of f)" "X \<subseteq> {..<num_row_groups_of f}"
  shows "plan_file S w e htp h (sorted_list_of_set X) =
    Inr (if X = {} then None else Some (planned_entry S w p f g X))"
proof -
  have fin: "finite X" by (rule finite_subset [OF assms(6)]) simp
  from assms(2,3) have "case map_of (data w) p of
        None \<Rightarrow> canonicalize S w p = None
      | Some f \<Rightarrow> \<exists>q loc. canonicalize S w p = Some q \<and> file_behind S w q = Some f \<and> store_path S q = Some loc"
    unfolding paths_ok_def by blast
  with assms(2) obtain q loc where q: "canonicalize S w p = Some q" "file_behind S w q = Some g"
    "store_path S q = Some loc" by auto
  have "{r \<in> set (sorted_list_of_set X). r < num_row_groups_of f} = X" using fin assms(6) by auto
  with access_plan_indexes [OF assms(4), of "num_row_groups_of f" "sorted_list_of_set X"]
  have "plan_indexes S (access_plan S (num_row_groups_of f) (sorted_list_of_set X)) = sorted_list_of_set X"
    by simp
  with q assms(1,2,5) fin show ?thesis
    by (auto simp: plan_file_def row_group_count_def planned_entry_def Let_def)
qed

lemma plan_files_collect:
  assumes "\<forall>(h, rgs) \<in> set frg. plan_file S w e htp h rgs = Inr (g h rgs)"
  shows "\<exists>fs. plan_files S w e htp frg = Inr fs
    \<and> (\<forall>x. x \<in> set fs \<longleftrightarrow> (\<exists>(h, rgs) \<in> set frg. g h rgs = Some x))"
  using assms
proof (induction frg)
  case (Cons y frg)
  obtain h rgs where y: "y = (h, rgs)" by (cases y)
  from Cons obtain fs where "plan_files S w e htp frg = Inr fs"
    "\<forall>x. x \<in> set fs \<longleftrightarrow> (\<exists>(h, rgs) \<in> set frg. g h rgs = Some x)" by auto
  with Cons.prems y show ?case by (cases "g h rgs") auto
qed simp

lemma file_hits_bound:
  assumes "good_file f" "X \<in> set (file_hits indexed f qs)"
  shows "X \<subseteq> {..<num_row_groups_of f}" "\<exists>column v. (column, v) \<in> set qs \<and> indexed column"
proof -
  from assms(2) obtain column v where q: "(column, v) \<in> set qs" "indexed column"
    "X = set (hit_row_groups (exact_hit v) (file_pairs column f))" by (auto simp: file_hits_def)
  show "X \<subseteq> {..<num_row_groups_of f}"
    unfolding q(3) set_hit_row_groups [OF file_pairs_bound [OF assms(1)]]
    by (auto simp: file_pairs_def num_row_groups_of_def split: sum.splits)
  show "\<exists>column v. (column, v) \<in> set qs \<and> indexed column" using q by blast
qed

text \<open>The engine reads index directories only, so it does not notice what happens to data files.\<close>

lemma load_set_indexes: "indexes w2 = indexes w \<Longrightarrow> load_set L w2 = load_set L w"
  by (simp add: load_set_def tree_of_def fun_eq_iff)

lemma search_files_indexes:
  assumes "indexes w2 = indexes w"
  shows "search_files L w2 e column search hs = search_files L w e column search hs"
proof (induction hs arbitrary: e)
  case (Cons h hs)
  have "get_or_load_set L w2 e h column = get_or_load_set L w e h column"
    unfolding get_or_load_set_def load_set_indexes [OF assms] ..
  then show ?case unfolding search_files.simps Cons.IH by simp
qed simp

lemma exact_search_indexes:
  "indexes w2 = indexes w \<Longrightarrow> exact_search L w2 e column v = exact_search L w e column v"
  by (simp add: exact_search_def search_all_def search_files_indexes [of w2 w])

lemma prune_filters_indexes:
  assumes "indexes w2 = indexes w"
  shows "prune_filters L w2 to_string e filters pr = prune_filters L w to_string e filters pr"
proof (induction filters arbitrary: e pr)
  case (Cons f fs)
  show ?case unfolding prune_filters.simps exact_search_indexes [OF assms] Cons.IH ..
qed simp

lemma prune_with_fst_index_indexes:
  "indexes w2 = indexes w \<Longrightarrow>
   prune_with_fst_index L w2 to_string e filters = prune_with_fst_index L w to_string e filters"
  by (simp add: prune_with_fst_index_def prune_filters_indexes [of w2 w])

lemma plan_file_deleted:
  assumes "map_of htp h = Some p" "map_of (data w) p = None" "paths_ok S w"
  shows "plan_file S w e htp h rgs = Inr None"
proof -
  from assms(3) have "case map_of (data w) p of
        None \<Rightarrow> canonicalize S w p = None
      | Some f \<Rightarrow> \<exists>q loc. canonicalize S w p = Some q \<and> file_behind S w q = Some f \<and> store_path S q = Some loc"
    unfolding paths_ok_def by blast
  with assms(1,2) show ?thesis by (simp add: plan_file_def)
qed

text \<open>
  The files and row groups of the scan, on a root where the looked up columns are current or silent
  for the files of world \<open>w\<close>.  The scan happens in \<open>w2\<close>, where the data files may be other ones.
\<close>

lemma scan_indexed:
  fixes L :: "('b, 'f, 's) fst_lib"
  assumes inj: "inj_on calculate_file_hash D"
    and served: "lookups_served L H D w root indexed (lookups (literal_string S) filters)"
    and files: "\<forall>p \<in> D. \<exists>f. map_of (data w) p = Some f \<and> good_file f"
    and e: "opened_on L w root (index_engine pv)"
    and S: "plan_ok S" "paths_ok S w2" "session_ok S filters projection"
    and w2: "indexes w2 = indexes w"
  shows "\<exists>cfg pv'. scan L S w2 pv projection filters limit = (Inr cfg, pv')
    \<and> (\<forall>x. x \<in> set (scan_files cfg) \<longleftrightarrow>
         (\<exists>p \<in> D. \<exists>f g. map_of (data w) p = Some f \<and> map_of (data w2) p = Some g
            \<and> (let Xs = file_hits indexed f (lookups (literal_string S) filters)
               in Xs \<noteq> [] \<and> \<Inter> (set Xs) \<noteq> {} \<and> x = planned_entry S w2 p f g (\<Inter> (set Xs)))))"
proof -
  let ?hits = "\<lambda>f. file_hits indexed f (lookups (literal_string S) filters)"
  from prune_with_fst_index_groups [OF inj served e] obtain frg htp e' where pr:
    "prune_with_fst_index L w (literal_string S) (index_engine pv) filters = ((frg, htp), e')"
    "opened_on L w root e'" "distinct (map fst frg)"
    "\<forall>(h, rgs) \<in> set frg. \<exists>p \<in> D. h = calculate_file_hash p \<and> map_of htp h = Some p \<and> sorted rgs \<and> distinct rgs"
    "\<forall>p \<in> D. \<forall>f. map_of (data w) p = Some f \<longrightarrow> map_of frg (calculate_file_hash p) =
       (let Xs = ?hits f in if Xs = [] then None else Some (sorted_list_of_set (\<Inter> (set Xs))))"
    by blast
  have pr2: "prune_with_fst_index L w2 (literal_string S) (index_engine pv) filters = ((frg, htp), e')"
    using pr(1) prune_with_fst_index_indexes [OF w2] by metis
  have at: "\<exists>p \<in> D. \<exists>f. h = calculate_file_hash p \<and> map_of htp h = Some p \<and> map_of (data w) p = Some f
      \<and> good_file f \<and> ?hits f \<noteq> [] \<and> rgs = sorted_list_of_set (\<Inter> (set (?hits f)))"
    if hr: "(h, rgs) \<in> set frg" for h rgs
  proof -
    from pr(4) hr obtain p where p: "p \<in> D" "h = calculate_file_hash p" "map_of htp h = Some p" by blast
    from files p(1) obtain f where f: "map_of (data w) p = Some f" "good_file f" by blast
    have "map_of frg (calculate_file_hash p) = Some rgs" using pr(3) hr p(2) by simp
    with pr(5) p(1) f(1) have "?hits f \<noteq> [] \<and> rgs = sorted_list_of_set (\<Inter> (set (?hits f)))"
      by (auto simp: Let_def split: if_splits)
    with p f show ?thesis by blast
  qed
  define g where "g h rgs = (let p = the (map_of htp h); f = the (map_of (data w) p); X = \<Inter> (set (?hits f))
      in if X = {} \<or> map_of (data w2) p = None then None else Some (planned_entry S w2 p f (the (map_of (data w2) p)) X))" for h :: string and rgs :: "nat list"
  have step: "plan_file S w2 e' htp h rgs = Inr (g h rgs)" if hr: "(h, rgs) \<in> set frg" for h rgs
  proof -
    from at [OF hr] obtain p f where p: "p \<in> D" "h = calculate_file_hash p" "map_of htp h = Some p"
      "map_of (data w) p = Some f" "good_file f" "?hits f \<noteq> []"
      "rgs = sorted_list_of_set (\<Inter> (set (?hits f)))" by blast
    from p(6) obtain X where X: "X \<in> set (?hits f)" by (cases "?hits f") auto
    from file_hits_bound [OF p(5) X] have b: "\<Inter> (set (?hits f)) \<subseteq> {..<num_row_groups_of f}"
      and "\<exists>column v. (column, v) \<in> set (lookups (literal_string S) filters) \<and> indexed column"
      using X by auto
    with served obtain column where "all_current L H D w root column"
      by (auto simp: lookups_served_def)
    from current_file_map(4) [OF this p(1,4)] pr(2)
    have "num_row_groups e' h = Some (num_row_groups_of f)"
      by (simp add: opened_on_def same_index_def num_row_groups_def p(2))
    note count = this
    show ?thesis
    proof (cases "map_of (data w2) p")
      case None
      from plan_file_deleted [OF p(3) None S(2)] p(3) None show ?thesis by (simp add: g_def)
    next
      case (Some f2)
      from plan_file_indexed [OF p(3) Some S(2,1) count b] p(3,4,7) Some show ?thesis
        by (simp add: g_def)
    qed
  qed
  then have "\<forall>(h, rgs) \<in> set frg. plan_file S w2 e' htp h rgs = Inr (g h rgs)" by blast
  from plan_files_collect [OF this] obtain fs where fs: "plan_files S w2 e' htp frg = Inr fs"
    "\<forall>x. x \<in> set fs \<longleftrightarrow> (\<exists>(h, rgs) \<in> set frg. g h rgs = Some x)" by blast
  have iff: "x \<in> set fs \<longleftrightarrow> (\<exists>p \<in> D. \<exists>f f2. map_of (data w) p = Some f \<and> map_of (data w2) p = Some f2
      \<and> (let Xs = ?hits f in Xs \<noteq> [] \<and> \<Inter> (set Xs) \<noteq> {} \<and> x = planned_entry S w2 p f f2 (\<Inter> (set Xs))))" for x
  proof
    assume "x \<in> set fs"
    then obtain h rgs where hr: "(h, rgs) \<in> set frg" "g h rgs = Some x" using fs(2) by blast
    from at [OF hr(1)] obtain p f where p: "p \<in> D" "map_of htp h = Some p"
      "map_of (data w) p = Some f" "?hits f \<noteq> []" by blast
    moreover from hr(2) p(2) obtain f2 where "map_of (data w2) p = Some f2"
      by (auto simp: g_def Let_def split: if_splits)
    ultimately show "\<exists>p \<in> D. \<exists>f f2. map_of (data w) p = Some f \<and> map_of (data w2) p = Some f2
      \<and> (let Xs = ?hits f in Xs \<noteq> [] \<and> \<Inter> (set Xs) \<noteq> {} \<and> x = planned_entry S w2 p f f2 (\<Inter> (set Xs)))"
      using hr(2) by (intro bexI [of _ p] exI [of _ f] exI [of _ f2]) (auto simp: g_def Let_def split: if_splits)
  next
    assume "\<exists>p \<in> D. \<exists>f f2. map_of (data w) p = Some f \<and> map_of (data w2) p = Some f2
      \<and> (let Xs = ?hits f in Xs \<noteq> [] \<and> \<Inter> (set Xs) \<noteq> {} \<and> x = planned_entry S w2 p f f2 (\<Inter> (set Xs)))"
    then obtain p f f2 where p2: "p \<in> D" "map_of (data w2) p = Some f2" "?hits f \<noteq> []"
      "\<Inter> (set (?hits f)) \<noteq> {}" "x = planned_entry S w2 p f f2 (\<Inter> (set (?hits f)))"
      and f: "map_of (data w) p = Some f" by (auto simp: Let_def)
    with pr(5) have "map_of frg (calculate_file_hash p) = Some (sorted_list_of_set (\<Inter> (set (?hits f))))"
      by (simp add: Let_def)
    then have hr: "(calculate_file_hash p, sorted_list_of_set (\<Inter> (set (?hits f)))) \<in> set frg"
      by (rule map_of_SomeD)
    from at [OF hr] inj p2(1) have "map_of htp (calculate_file_hash p) = Some p" by (auto simp: inj_on_def)
    with p2 f have "g (calculate_file_hash p) (sorted_list_of_set (\<Inter> (set (?hits f)))) = Some x"
      by (simp add: g_def Let_def)
    with hr fs(2) show "x \<in> set fs" by blast
  qed
  from S(3) obtain pred where pred: "scan_filter S filters = Inr pred"
    by (cases "scan_filter S filters") (auto simp: session_ok_def)
  show ?thesis
  proof (cases "frg = []")
    case True
    then have "set fs = {}" using fs(2) by auto
    with iff True pr2 S(3) show ?thesis by (auto simp: scan_def session_ok_def)
  next
    case False
    with iff pr2 fs(1) S(3) pred show ?thesis by (auto simp: scan_def session_ok_def)
  qed
qed

lemma scan_current:
  assumes "inj_on calculate_file_hash D"
    "lookups_served L H D w root indexed (lookups (literal_string S) filters)"
    "\<forall>p \<in> D. \<exists>f. map_of (data w) p = Some f \<and> good_file f"
    "opened_on L w root (index_engine pv)" "plan_ok S" "paths_ok S w" "session_ok S filters projection"
  shows "\<exists>cfg pv'. scan L S w pv projection filters limit = (Inr cfg, pv')
    \<and> (\<forall>x. x \<in> set (scan_files cfg) \<longleftrightarrow>
         (\<exists>p \<in> D. \<exists>f. map_of (data w) p = Some f
            \<and> (let Xs = file_hits indexed f (lookups (literal_string S) filters)
               in Xs \<noteq> [] \<and> \<Inter> (set Xs) \<noteq> {} \<and> x = scan_entry S w p f (\<Inter> (set Xs)))))"
proof -
  from scan_indexed [OF assms refl, of limit] obtain cfg pv' where
    sc: "scan L S w pv projection filters limit = (Inr cfg, pv')"
    "\<forall>x. x \<in> set (scan_files cfg) \<longleftrightarrow>
         (\<exists>p \<in> D. \<exists>f g. map_of (data w) p = Some f \<and> map_of (data w) p = Some g
            \<and> (let Xs = file_hits indexed f (lookups (literal_string S) filters)
               in Xs \<noteq> [] \<and> \<Inter> (set Xs) \<noteq> {} \<and> x = planned_entry S w p f g (\<Inter> (set Xs))))" by blast
  have same: "(\<exists>f g. m = Some f \<and> m = Some g \<and> Q f g) \<longleftrightarrow> (\<exists>f. m = Some f \<and> Q f f)" for m :: "pfile option" and Q
    by auto
  from sc show ?thesis unfolding same planned_entry_same by blast
qed

section \<open>A reference instance for the parameters\<close>

definition list_lib :: "(string, unit, bool, nat list, string list) scan_lib" where
  "list_lib =
     \<lparr>literal_string = id, check_projection = (\<lambda>_. Inr ()), df_schema = Inr (),
      expr_conjunction = (\<lambda>fs. case fs of [] \<Rightarrow> None | f # _ \<Rightarrow> Some f),
      physical_expr = (\<lambda>_. Inr True), lit_true = True, find_object_store = Inr (),
      plan_none = (\<lambda>_. []), plan_scan = (\<lambda>plan r. r # plan),
      plan_indexes = (\<lambda>plan. sorted_list_of_set (set plan)),
      canonicalize = (\<lambda>w p. if map_of (data w) p = None then None else Some p),
      file_behind = (\<lambda>w. map_of (data w)), store_path = Some\<rparr>"

lemma set_foldl_Cons: "set (foldl (\<lambda>xs x. x # xs) ys rgs) = set ys \<union> set rgs"
  by (induction rgs arbitrary: ys) auto

lemma list_lib_ok: "plan_ok list_lib" "paths_ok list_lib w" "session_ok list_lib filters projection"
  by (simp_all add: plan_ok_def paths_ok_def session_ok_def scan_filter_def list_lib_def set_foldl_Cons
      split: option.split list.split)

lemma list_lib_paths: "\<forall>w'. paths_ok list_lib w'"
  by (simp add: list_lib_ok)

lemma ex_built:
  "\<exists>w'. build_index list_fst ''pdq-index'' ex_world ''d'' ''ip'' = (Inr (), w') \<and> data w' = data ex_world
    \<and> all_current list_fst (current_versions ex_world) {''d/a.parquet''} w' ''pdq-index'' ''ip''"
proof -
  from history_built [OF list_fst_ok ex_history ex_stat] obtain w' where
    "build_index list_fst ''pdq-index'' ex_world ''d'' ''ip'' = (Inr (), w')" "data w' = data ex_world"
    "all_current list_fst (current_versions ex_world) (set (walk_parquet ex_world ''d'')) w' ''pdq-index'' ''ip''"
    by metis
  then show ?thesis unfolding ex_walk by auto
qed

text \<open>An engine and provider on a root.\<close>

definition ex_provider :: "string list world \<Rightarrow> (string list, unit, unit) provider" where
  "ex_provider w = \<lparr>index_engine = engine_new w ''pdq-index'', table_schema = (), table_name = ''t'',
     row_selections = False, metadata_size_hint = None, metadata_cache = cache_default\<rparr>"

definition ip_is :: "string \<Rightarrow> (string, unit) expr" where
  "ip_is v = BinaryExpr (Column None ''ip'') Eq (Literal v)"

lemma ip_extract [simp]: "extract_equality_filter (literal_string list_lib) (ip_is v) = Some (''ip'', v)"
  by (simp add: ip_is_def list_lib_def)

lemma ip_lookups: "lookups (literal_string list_lib) [ip_is v, OtherExpr ()] = [(''ip'', v)]"
  by simp

lemma ex_D: "inj_on calculate_file_hash {''d/a.parquet''}"
  by simp

lemma ex_served:
  assumes "all_current list_fst H {''d/a.parquet''} w' ''pdq-index'' ''ip''"
  shows "lookups_served list_fst H {''d/a.parquet''} w' ''pdq-index'' (\<lambda>c. c = ''ip'')
    (lookups (literal_string list_lib) [ip_is v, OtherExpr ()])"
  using assms by (simp add: lookups_served_def ip_lookups)

lemma ex_data_D: "data w' = data ex_world \<Longrightarrow>
  \<forall>p \<in> {''d/a.parquet''}. \<exists>f. map_of (data w') p = Some f \<and> good_file f"
  by (simp add: ex_data ex_file_good)

lemma ex_provider_opened: "opened_on L w' ''pdq-index'' (index_engine (ex_provider w'))"
  by (simp add: ex_provider_def)

text \<open>The same scan through the lemma on current roots.\<close>

lemma ex_scan:
  assumes "data w' = data ex_world"
    "all_current list_fst H {''d/a.parquet''} w' ''pdq-index'' ''ip''"
  shows "\<exists>cfg pv' pf plan. scan list_fst list_lib w' (ex_provider w') None [ip_is ''3.4'', OtherExpr ()] None = (Inr cfg, pv')
    \<and> (pf, plan) \<in> set (scan_files cfg) \<and> 1 \<in> set (plan_indexes list_lib plan)"
proof -
  have f: "map_of (data w') ''d/a.parquet'' = Some ex_file" by (simp add: assms(1) ex_data)
  have "set (hit_row_groups (exact_hit ''3.4'') (file_pairs ''ip'' ex_file)) = {1}"
    unfolding set_hit_row_groups [OF file_pairs_bound [OF ex_file_good]]
    by (auto simp: ex_file_pairs exact_hit_def)
  then have hits: "file_hits (\<lambda>c. c = ''ip'') ex_file (lookups (literal_string list_lib) [ip_is ''3.4'', OtherExpr ()]) = [{1}]"
    by (simp add: ip_lookups)
  define K where "K = lookups (literal_string list_lib) [ip_is ''3.4'', OtherExpr ()]"
  from scan_current [OF ex_D ex_served [OF assms(2)] ex_data_D [OF assms(1)] ex_provider_opened list_lib_ok,
      of None "''3.4''" None, folded K_def]
  obtain cfg pv' where sc: "scan list_fst list_lib w' (ex_provider w') None [ip_is ''3.4'', OtherExpr ()] None = (Inr cfg, pv')"
    and iff: "\<forall>x. x \<in> set (scan_files cfg) \<longleftrightarrow> (\<exists>p \<in> {''d/a.parquet''}. \<exists>f. map_of (data w') p = Some f
      \<and> (let Xs = file_hits (\<lambda>c. c = ''ip'') f K
         in Xs \<noteq> [] \<and> \<Inter> (set Xs) \<noteq> {} \<and> x = scan_entry list_lib w' p f (\<Inter> (set Xs))))" by blast
  have "scan_entry list_lib w' ''d/a.parquet'' ex_file {1} \<in> set (scan_files cfg)"
    using iff [THEN spec, of "scan_entry list_lib w' ''d/a.parquet'' ex_file {1}"] f hits [folded K_def]
    by simp
  moreover
  have "1 \<in> set (plan_indexes list_lib (snd (scan_entry list_lib w' ''d/a.parquet'' ex_file {1})))"
    by (simp add: scan_entry_def access_plan_indexes list_lib_ok num_row_groups_of_def ex_file_def)
  ultimately show ?thesis using sc by (metis prod.collapse)
qed

text \<open>A root whose FST is broken.\<close>

definition ex_broken :: "string list world" where
  "ex_broken = ex_world\<lparr>indexes := [''pdq-index'' \<mapsto>
     [(calculate_file_hash ''d/a.parquet'', IdxDir \<lparr>meta = None, fsts = [(''ip.fst'', Partial)]\<rparr>)]]\<rparr>"

lemma ex_broken_silent: "silent list_fst ex_broken ''pdq-index'' ''ip'' v"
  by (simp add: silent_def exact_search_def search_all_def engine_new_def ex_broken_def tree_of_def
      metadata_lines_def get_or_load_set_def load_set_def fst_name_def)

lemma ex_plain: "plain_files ex_world ''d'' ''ip''"
  by (auto simp: plain_files_def ex_data plain_values_def ex_file_pairs split: if_splits)

end
