(* ===== verification/Provider_Properties.thy ===== *)
theory Provider_Properties
  imports Provider_Query
begin

text \<open>
  What the table provider guarantees for the scans it plans, where it gives up rows, what its
  cache of Parquet footers guarantees, for lookups in sequence and interleaved, and which schema a
  provider is built with.
\<close>

section \<open>Scans\<close>

text \<open>
  C10. A scan gives up no row that matches: when some looked up column is indexed, every row
  group of a file in which all the indexed columns among the equality filters have their value is
  in the access plan of that file.
\<close>

theorem scan_keeps_matching_row_groups:
  assumes "inj_on calculate_file_hash D"
    "lookups_served L H D w root indexed (lookups (literal_string S) filters)"
    "\<forall>p \<in> D. \<exists>f. map_of (data w) p = Some f \<and> good_file f"
    "opened_on L w root (index_engine pv)"
    "plan_ok S" "paths_ok S w" "session_ok S filters projection"
    "p \<in> D" "map_of (data w) p = Some f"
    "\<exists>(column, v) \<in> set (lookups (literal_string S) filters). indexed column"
    "\<forall>(column, v) \<in> set (lookups (literal_string S) filters). indexed column \<longrightarrow> (v, n) \<in> file_pairs column f"
  shows "\<exists>cfg pv' loc plan. scan L S w pv projection filters limit = (Inr cfg, pv')
    \<and> (\<lparr>file_location = loc, object_size = fsize f\<rparr>, plan) \<in> set (scan_files cfg)
    \<and> store_path S (the (canonicalize S w p)) = Some loc \<and> n \<in> set (plan_indexes S plan)"
proof -
  let ?Xs = "file_hits indexed f (lookups (literal_string S) filters)"
  from scan_current [OF assms(1-7)] obtain cfg pv' where sc:
    "scan L S w pv projection filters limit = (Inr cfg, pv')"
    "\<forall>x. x \<in> set (scan_files cfg) \<longleftrightarrow> (\<exists>p \<in> D. \<exists>f. map_of (data w) p = Some f
        \<and> (let Xs = file_hits indexed f (lookups (literal_string S) filters)
           in Xs \<noteq> [] \<and> \<Inter> (set Xs) \<noteq> {} \<and> x = scan_entry S w p f (\<Inter> (set Xs))))" by blast
  from assms(3,8,9) have good: "good_file f" by auto
  have hit: "n \<in> set (hit_row_groups (exact_hit v) (file_pairs column f))"
    if "(column, v) \<in> set (lookups (literal_string S) filters)" "indexed column" for column v
    using assms(11) that unfolding set_hit_row_groups [OF file_pairs_bound [OF good]]
    by (force simp: exact_hit_def)
  have n: "n \<in> X" if "X \<in> set ?Xs" for X
    using that hit by (auto simp: file_hits_def)
  from assms(10) obtain column v where q: "(column, v) \<in> set (lookups (literal_string S) filters)" "indexed column"
    by blast
  with hit [OF q] have "set (hit_row_groups (exact_hit v) (file_pairs column f)) \<in> set ?Xs"
    by (force simp: file_hits_def)
  then have ne: "?Xs \<noteq> []" by (cases ?Xs) auto
  with n have I: "n \<in> \<Inter> (set ?Xs)" by blast
  from ne obtain X where X: "X \<in> set ?Xs" by (cases ?Xs) auto
  from file_hits_bound(1) [OF good X] X have b: "\<Inter> (set ?Xs) \<subseteq> {..<num_row_groups_of f}" by blast
  then have fin: "finite (\<Inter> (set ?Xs))" by (rule finite_subset) simp
  have "\<exists>q \<in> D. \<exists>g. map_of (data w) q = Some g
        \<and> (let Xs = file_hits indexed g (lookups (literal_string S) filters)
           in Xs \<noteq> [] \<and> \<Inter> (set Xs) \<noteq> {} \<and> scan_entry S w p f (\<Inter> (set ?Xs)) = scan_entry S w q g (\<Inter> (set Xs)))"
    unfolding Let_def using assms(8,9) ne I by blast
  then have "scan_entry S w p f (\<Inter> (set ?Xs)) \<in> set (scan_files cfg)"
    using sc(2) by blast
  moreover have "n \<in> set (plan_indexes S (access_plan S (num_row_groups_of f) (sorted_list_of_set (\<Inter> (set ?Xs)))))"
    unfolding access_plan_indexes [OF assms(5)] using I b fin by auto
  moreover have "\<exists>loc. store_path S (the (canonicalize S w p)) = Some loc"
  proof -
    from assms(6) have "case map_of (data w) p of
        None \<Rightarrow> canonicalize S w p = None
      | Some f \<Rightarrow> \<exists>q loc. canonicalize S w p = Some q \<and> file_behind S w q = Some f \<and> store_path S q = Some loc"
      unfolding paths_ok_def by blast
    with assms(9) show ?thesis by auto
  qed
  ultimately show ?thesis using sc(1) unfolding scan_entry_def by auto
qed

theorem scan_keeps_matching_row_groups_witness:
  "\<exists>w' cfg pv' loc plan. build_index list_fst ''pdq-index'' ex_world ''d'' ''ip'' = (Inr (), w')
    \<and> scan list_fst list_lib w' (ex_provider w') None [ip_is ''1.2'', OtherExpr ()] None = (Inr cfg, pv')
    \<and> (\<lparr>file_location = loc, object_size = 40\<rparr>, plan) \<in> set (scan_files cfg)
    \<and> loc = ''d/a.parquet'' \<and> 1 \<in> set (plan_indexes list_lib plan)"
proof -
  from ex_built obtain w' where w': "build_index list_fst ''pdq-index'' ex_world ''d'' ''ip'' = (Inr (), w')"
    "data w' = data ex_world"
    "all_current list_fst (current_versions ex_world) {''d/a.parquet''} w' ''pdq-index'' ''ip''" by blast
  have f: "map_of (data w') ''d/a.parquet'' = Some ex_file" by (simp add: w'(2) ex_data)
  have "\<exists>cfg pv' loc plan. scan list_fst list_lib w' (ex_provider w') None [ip_is ''1.2'', OtherExpr ()] None = (Inr cfg, pv')
    \<and> (\<lparr>file_location = loc, object_size = fsize ex_file\<rparr>, plan) \<in> set (scan_files cfg)
    \<and> store_path list_lib (the (canonicalize list_lib w' ''d/a.parquet'')) = Some loc
    \<and> 1 \<in> set (plan_indexes list_lib plan)"
    by (rule scan_keeps_matching_row_groups [OF ex_D ex_served [OF w'(3)] ex_data_D [OF w'(2)]
          ex_provider_opened list_lib_ok _ f])
       (simp_all add: ip_lookups ex_file_pairs)
  moreover have "fsize ex_file = 40" by (simp add: ex_file_def)
  moreover have "store_path list_lib (the (canonicalize list_lib w' ''d/a.parquet'')) = Some ''d/a.parquet''"
    by (simp add: list_lib_def f)
  ultimately show ?thesis using w'(1) by auto
qed



text \<open>
  C15. When no equality filter can be answered from the index (none is given, the column is not
  indexed, or its FST does not open), the scan plans no file at all, although the files may hold
  rows that match.
\<close>

theorem scan_without_usable_lookup_is_empty:
  assumes "\<forall>(column, v) \<in> set (lookups (literal_string S) filters). silent L w root column v"
    "opened_on L w root (index_engine pv)" "check_projection S projection = Inr ()"
  shows "\<exists>cfg pv'. scan L S w pv projection filters limit = (Inr cfg, pv') \<and> scan_files cfg = []"
proof -
  have "lookups_served L (\<lambda>_. {}) {} w root (\<lambda>_. False) (lookups (literal_string S) filters)"
    using assms(1) by (simp add: lookups_served_def)
  from prune_with_fst_index_groups [OF inj_on_empty this assms(2)] obtain frg htp e' where
    pr: "prune_with_fst_index L w (literal_string S) (index_engine pv) filters = ((frg, htp), e')"
    "\<forall>(h, rgs) \<in> set frg. \<exists>p \<in> {}. h = calculate_file_hash p \<and> map_of htp h = Some p
       \<and> sorted rgs \<and> distinct rgs" by blast
  from pr(2) have "frg = []" by (cases frg) auto
  with pr(1) assms(3) show ?thesis by (simp add: scan_def)
qed

theorem scan_without_usable_lookup_is_empty_witness:
  "\<exists>cfg pv'. scan list_fst list_lib ex_broken (ex_provider ex_broken) None [ip_is ''1.2'', OtherExpr ()] None
      = (Inr cfg, pv') \<and> scan_files cfg = []"
proof (rule scan_without_usable_lookup_is_empty [OF _ ex_provider_opened])
  show "\<forall>(column, v) \<in> set (lookups (literal_string list_lib) [ip_is ''1.2'', OtherExpr ()]).
      silent list_fst ex_broken ''pdq-index'' column v"
    by (simp add: ip_lookups ex_broken_silent)
qed (simp add: list_lib_def)

lemma scan_after_build:
  fixes L :: "('b, 'f, 's) fst_lib"
  assumes "fst_ok L" "index_history L dir root column H w" "stat_determines H" "plain_files w dir column"
    "plan_ok S" "\<forall>w'. paths_ok S w'" "session_ok S filters projection"
    "lookups (literal_string S) filters = [(column, v)]"
  shows "\<exists>w'. build_index L root w dir column = (Inr (), w')
    \<and> (\<forall>ds. \<forall>pv :: ('s, 'sch, 'm) provider. index_engine pv = engine_new w' root \<longrightarrow>
         (\<exists>cfg pv'. scan L S (w'\<lparr>data := ds\<rparr>) pv projection filters limit = (Inr cfg, pv')
            \<and> (\<forall>x. x \<in> set (scan_files cfg) \<longleftrightarrow>
                 (\<exists>p \<in> set (walk_parquet w dir). \<exists>f g. map_of (data w) p = Some f \<and> map_of ds p = Some g
                    \<and> (\<exists>n. (v, n) \<in> file_pairs column f)
                    \<and> x = planned_entry S (w'\<lparr>data := ds\<rparr>) p f g {n. (v, n) \<in> file_pairs column f}))))"
proof -
  let ?D = "set (walk_parquet w dir)"
  from history_built [OF assms(1-3)] obtain w' where w': "build_index L root w dir column = (Inr (), w')"
    "data w' = data w" "all_current L H ?D w' root column" by metis
  have inj: "inj_on calculate_file_hash ?D" using w'(3) by (simp add: all_current_def buildable_def)
  have files: "\<forall>p \<in> ?D. \<exists>f. map_of (data w') p = Some f \<and> good_file f"
    using current_entry [OF w'(3)] by metis
  have served: "lookups_served L H ?D w' root (\<lambda>_. True) (lookups (literal_string S) filters)"
    using w'(3) by (simp add: lookups_served_def assms(8))
  have hits: "file_hits (\<lambda>_. True) f [(column, v)] =
      (let X = {n. (v, n) \<in> file_pairs column f} in if X = {} then [] else [X])"
    if p: "p \<in> ?D" "map_of (data w) p = Some f" for p f
  proof -
    have good: "good_file f" using files p w'(2) by auto
    have "plain_values column f" using assms(4) p by (simp add: plain_files_def)
    then have "{n. \<exists>u. (u, n) \<in> file_pairs column f \<and> exact_hit v u} = {n. (v, n) \<in> file_pairs column f}"
      by (auto simp: plain_values_def exact_hit_no_NUL exact_hit_def prefix_def)
    then show ?thesis
      by (simp add: set_hit_row_groups [OF file_pairs_bound [OF good]] Let_def)
  qed
  have one: "(let Xs = file_hits (\<lambda>_. True) f [(column, v)]
         in Xs \<noteq> [] \<and> \<Inter> (set Xs) \<noteq> {} \<and> Q (\<Inter> (set Xs)))
    \<longleftrightarrow> (\<exists>n. (v, n) \<in> file_pairs column f) \<and> Q {n. (v, n) \<in> file_pairs column f}"
    if "p \<in> ?D" "map_of (data w) p = Some f" for p f Q
    unfolding hits [OF that] by (auto simp: Let_def)
  have "\<exists>cfg pv'. scan L S (w'\<lparr>data := ds\<rparr>) pv projection filters limit = (Inr cfg, pv')
      \<and> (\<forall>x. x \<in> set (scan_files cfg) \<longleftrightarrow>
           (\<exists>p \<in> ?D. \<exists>f g. map_of (data w) p = Some f \<and> map_of ds p = Some g \<and> (\<exists>n. (v, n) \<in> file_pairs column f)
              \<and> x = planned_entry S (w'\<lparr>data := ds\<rparr>) p f g {n. (v, n) \<in> file_pairs column f}))"
    if e: "index_engine pv = engine_new w' root" for ds and pv :: "('s, 'sch, 'm) provider"
  proof -
    have op: "opened_on L w' root (index_engine pv)" by (simp add: e)
    have ix: "indexes (w'\<lparr>data := ds\<rparr>) = indexes w'" by simp
    from scan_indexed [OF inj served files op assms(5) assms(6) [rule_format] assms(7) ix, of limit]
    obtain cfg pv' where sc: "scan L S (w'\<lparr>data := ds\<rparr>) pv projection filters limit = (Inr cfg, pv')"
      "\<forall>x. x \<in> set (scan_files cfg) \<longleftrightarrow> (\<exists>p \<in> ?D. \<exists>f g. map_of (data w') p = Some f
        \<and> map_of (data (w'\<lparr>data := ds\<rparr>)) p = Some g
        \<and> (let Xs = file_hits (\<lambda>_. True) f [(column, v)]
           in Xs \<noteq> [] \<and> \<Inter> (set Xs) \<noteq> {} \<and> x = planned_entry S (w'\<lparr>data := ds\<rparr>) p f g (\<Inter> (set Xs))))"
      unfolding assms(8) by blast
    have ds: "map_of (data (w'\<lparr>data := ds\<rparr>)) = map_of ds" by simp
    have "(let Xs = file_hits (\<lambda>_. True) f [(column, v)]
           in Xs \<noteq> [] \<and> \<Inter> (set Xs) \<noteq> {} \<and> x = planned_entry S (w'\<lparr>data := ds\<rparr>) p f g (\<Inter> (set Xs)))
      \<longleftrightarrow> (\<exists>n. (v, n) \<in> file_pairs column f)
        \<and> x = planned_entry S (w'\<lparr>data := ds\<rparr>) p f g {n. (v, n) \<in> file_pairs column f}"
      if "p \<in> ?D" "map_of (data w) p = Some f" for p f g x
      by (rule one [OF that])
    with sc show ?thesis unfolding w'(2) ds by (intro exI [of _ cfg] exI [of _ pv'] conjI) blast+
  qed
  with w'(1) show ?thesis by blast
qed





text \<open>The plan of a file rests on the count recorded in the index, not on the file.\<close>

theorem recorded_count_hides_shorter_file:
  assumes "plan_ok S" "num_row_groups e h = Some n" "map_of htp h = Some p" "canonicalize S w p = Some q"
    "file_behind S w q = Some g" "store_path S q = Some loc" "num_row_groups_of g \<le> r" "r < n" "r \<in> set rgs"
  shows "\<exists>plan. plan_file S w e htp h rgs = Inr (Some (\<lparr>file_location = loc, object_size = fsize g\<rparr>, plan))
    \<and> r \<in> set (plan_indexes S plan)"
proof -
  have "r \<in> set (plan_indexes S (access_plan S n rgs))"
    unfolding access_plan_indexes [OF assms(1)] using assms(8,9) by simp
  then have "plan_indexes S (access_plan S n rgs) \<noteq> []" "rgs \<noteq> []" using assms(9) by auto
  with assms(2-6) \<open>r \<in> set (plan_indexes S (access_plan S n rgs))\<close> show ?thesis
    by (auto simp: plan_file_def row_group_count_def Let_def)
qed

theorem recorded_count_hides_shorter_file_witness:
  "\<exists>plan. plan_file list_lib ex_world
      \<lparr>index_dir = ''r'', file_map = [], row_group_counts = [(''h'', 3)], fst_cache = (\<lambda>_. None)\<rparr>
      [(''h'', ''d/a.parquet'')] ''h'' [2] =
    Inr (Some (\<lparr>file_location = ''d/a.parquet'', object_size = fsize ex_file\<rparr>, plan))
    \<and> 2 \<in> set (plan_indexes list_lib plan)"
  by (rule recorded_count_hides_shorter_file [OF list_lib_ok(1), where n = 3 and p = "''d/a.parquet''" and q = "''d/a.parquet''"])
     (simp_all add: num_row_groups_def list_lib_def ex_data num_row_groups_of_def ex_file_def)

text \<open>
  C27. When a file that holds the value in a row group is replaced, after indexing, by a file
  with too few row groups to have it, a scan plans the new file, at its size, with row groups it
  does not have: the count they are checked against is the one recorded in the index.
\<close>

theorem shorter_file_is_planned_past_its_end:
  fixes L :: "('b, 'f, 's) fst_lib"
  assumes "fst_ok L" "index_history L dir root column H w" "stat_determines H" "plain_files w dir column"
    "plan_ok S" "\<forall>w'. paths_ok S w'" "session_ok S filters projection"
    "lookups (literal_string S) filters = [(column, v)]"
    "p \<in> set (walk_parquet w dir)" "map_of (data w) p = Some f" "(v, n) \<in> file_pairs column f"
    "map_of ds p = Some g" "num_row_groups_of g \<le> n"
  shows "\<exists>w'. build_index L root w dir column = (Inr (), w')
    \<and> (\<forall>pv :: ('s, 'sch, 'm) provider. index_engine pv = engine_new w' root \<longrightarrow>
         (\<exists>cfg pv' loc plan. scan L S (w'\<lparr>data := ds\<rparr>) pv projection filters limit = (Inr cfg, pv')
            \<and> (\<lparr>file_location = loc, object_size = fsize g\<rparr>, plan) \<in> set (scan_files cfg)
            \<and> (\<exists>r \<in> set (plan_indexes S plan). num_row_groups_of g \<le> r)))"
proof -
  from scan_after_build [where 'sch = 'sch and 'm = 'm, OF assms(1-8), of limit]
  obtain w' where w': "build_index L root w dir column = (Inr (), w')"
    and sc: "\<And>pv. index_engine (pv :: ('s, 'sch, 'm) provider) = engine_new w' root \<Longrightarrow>
         (\<exists>cfg pv'. scan L S (w'\<lparr>data := ds\<rparr>) pv projection filters limit = (Inr cfg, pv')
            \<and> (\<forall>x. x \<in> set (scan_files cfg) \<longleftrightarrow>
                 (\<exists>p \<in> set (walk_parquet w dir). \<exists>f g. map_of (data w) p = Some f \<and> map_of ds p = Some g
                    \<and> (\<exists>n. (v, n) \<in> file_pairs column f)
                    \<and> x = planned_entry S (w'\<lparr>data := ds\<rparr>) p f g {n. (v, n) \<in> file_pairs column f})))" by blast
  let ?X = "{n. (v, n) \<in> file_pairs column f}"
  have "?X \<subseteq> {..<num_row_groups_of f}"
    by (auto simp: file_pairs_def num_row_groups_of_def split: sum.splits)
  from planned_entry_indexes [OF assms(5) this] assms(11)
  have n: "n \<in> set (plan_indexes S (snd (planned_entry S (w'\<lparr>data := ds\<rparr>) p f g ?X)))" by simp
  have "\<exists>cfg pv' loc plan. scan L S (w'\<lparr>data := ds\<rparr>) pv projection filters limit = (Inr cfg, pv')
            \<and> (\<lparr>file_location = loc, object_size = fsize g\<rparr>, plan) \<in> set (scan_files cfg)
            \<and> (\<exists>r \<in> set (plan_indexes S plan). num_row_groups_of g \<le> r)"
    if e: "index_engine pv = engine_new w' root" for pv :: "('s, 'sch, 'm) provider"
  proof -
    from sc [OF e] obtain cfg pv' where c:
      "scan L S (w'\<lparr>data := ds\<rparr>) pv projection filters limit = (Inr cfg, pv')"
      "planned_entry S (w'\<lparr>data := ds\<rparr>) p f g ?X \<in> set (scan_files cfg)"
      using assms(9-12) by blast
    with n assms(13) show ?thesis unfolding planned_entry_def snd_conv by blast
  qed
  with w' show ?thesis by blast
qed

theorem shorter_file_is_planned_past_its_end_witness:
  "\<exists>w' cfg pv' loc plan. build_index list_fst ''pdq-index'' ex_world ''d'' ''ip'' = (Inr (), w')
    \<and> scan list_fst list_lib (w'\<lparr>data := [(''d/a.parquet'', ex_file\<lparr>contents := Inr [], fsize := 7\<rparr>)]\<rparr>)
        (ex_provider w') None [ip_is ''1.2'', OtherExpr ()] None = (Inr cfg, pv')
    \<and> (\<lparr>file_location = loc, object_size = 7\<rparr>, plan) \<in> set (scan_files cfg) \<and> plan_indexes list_lib plan \<noteq> []"
proof -
  have walk: "''d/a.parquet'' \<in> set (walk_parquet ex_world ''d'')" by (simp add: ex_walk)
  have f: "map_of (data ex_world) ''d/a.parquet'' = Some ex_file" by (simp add: ex_data)
  have v: "(''1.2'', 0) \<in> file_pairs ''ip'' ex_file" by (simp add: ex_file_pairs)
  have g: "map_of [(''d/a.parquet'', ex_file\<lparr>contents := Inr [], fsize := 7\<rparr>)] ''d/a.parquet'' =
    Some (ex_file\<lparr>contents := Inr [], fsize := 7\<rparr>)" by simp
  have "num_row_groups_of (ex_file\<lparr>contents := Inr [], fsize := 7\<rparr>) \<le> 0" by (simp add: num_row_groups_of_def)
  from shorter_file_is_planned_past_its_end [where 'sch = unit and 'm = unit, OF list_fst_ok ex_history ex_stat
      ex_plain list_lib_ok(1) list_lib_paths list_lib_ok(3) ip_lookups [of "''1.2''"] walk f v g this, of None None]
  obtain w' where w': "build_index list_fst ''pdq-index'' ex_world ''d'' ''ip'' = (Inr (), w')"
    and sc: "\<And>pv :: (string list, unit, unit) provider. index_engine pv = engine_new w' ''pdq-index'' \<Longrightarrow>
      \<exists>cfg pv' loc plan. scan list_fst list_lib (w'\<lparr>data := [(''d/a.parquet'', ex_file\<lparr>contents := Inr [], fsize := 7\<rparr>)]\<rparr>)
          pv None [ip_is ''1.2'', OtherExpr ()] None = (Inr cfg, pv')
        \<and> (\<lparr>file_location = loc, object_size = 7\<rparr>, plan) \<in> set (scan_files cfg)
        \<and> (\<exists>r. r \<in> set (plan_indexes list_lib plan))" by auto blast
  have "index_engine (ex_provider w') = engine_new w' ''pdq-index''" by (simp add: ex_provider_def)
  from sc [OF this] w' show ?thesis by (metis empty_iff list.set(1))
qed

section \<open>The cache of footers\<close>

text \<open>The keys of the lookups that succeeded, and what a successful lookup leaves in the cache.\<close>

fun served_keys :: "(string \<times> 'o) list \<Rightarrow> (pdq_error + 'm) list \<Rightarrow> string set" where
  "served_keys ((key, options) # rs) (r # out) = (if isl r then {} else {key}) \<union> served_keys rs out"
| "served_keys rs out = {}"

lemma get_metadata_entries:
  "get_metadata read_footer c key options = (r, c') \<Longrightarrow>
   dom (cache_entries c') = dom (cache_entries c) \<union> (if isl r then {} else {key})"
  using entries_get_metadata [of read_footer c key options] by simp

lemma serve_entries:
  "serve read_footer c rs = (out, c') \<Longrightarrow>
   dom (cache_entries c') = dom (cache_entries c) \<union> served_keys rs out"
proof (induction rs arbitrary: c out c')
  case (Cons r rs)
  obtain key options where r: "r = (key, options)" by (cases r)
  obtain x c1 where x: "get_metadata read_footer c key options = (x, c1)" by fastforce
  obtain out2 where s: "serve read_footer c1 rs = (out2, c')" "out = x # out2"
    using Cons.prems r x by (auto split: prod.splits)
  show ?case unfolding Cons.IH [OF s(1)] get_metadata_entries [OF x] by (auto simp: r s(2))
qed simp

lemma get_metadata_stores:
  "get_metadata read_footer c key options = (Inr md, c') \<Longrightarrow> cache_entries c' key = Some md"
  by (auto simp: get_metadata_def cache_defs split: option.splits sum.splits)

text \<open>
  C26. Lookups one after the other on an empty cache parse as many footers as there are distinct
  files among the successful lookups, and every other successful lookup is a hit.
\<close>

theorem sequential_lookups_parse_once:
  assumes "serve (read_footer :: string \<Rightarrow> 'o \<Rightarrow> pdq_error + 'm) cache_default rs = (out, c)"
  shows "snd (cache_stats c) = of_nat (card (served_keys rs out))
    \<and> fst (cache_stats c) = of_nat (length (filter (\<lambda>r. \<not> isl r) out)) - of_nat (card (served_keys rs out))"
proof -
  have d: "dom (cache_entries (cache_default :: 'm metadata_cache)) = {}"
    by (simp add: cache_default_def)
  have z: "cache_hits (cache_default :: 'm metadata_cache) = 0"
    "cache_misses (cache_default :: 'm metadata_cache) = 0" by (simp_all add: cache_default_def)
  have k: "dom (cache_entries c) = served_keys rs out" using serve_entries [OF assms] d by simp
  have "finite (dom (cache_entries (cache_default :: 'm metadata_cache)))" unfolding d by simp
  note sc = serve_count [OF this assms]
  from sc [THEN conjunct2, THEN conjunct1] d z k
  have "cache_misses c = of_nat (card (served_keys rs out))" by simp
  moreover from sc [THEN conjunct2, THEN conjunct2] z
  have "cache_hits c + cache_misses c = of_nat (length (filter (\<lambda>r. \<not> isl r) out))" by simp
  ultimately
  show ?thesis unfolding cache_stats_def fst_conv snd_conv by (metis add_diff_cancel_right')
qed

theorem sequential_lookups_parse_once_witness:
  "cache_stats (snd (serve (\<lambda>key _. if key = ''x'' then Inl NotFound else Inr (length key)) cache_default
     [(''a'', ()), (''bc'', ()), (''x'', ()), (''a'', ())])) = (1, 2)"
  (is "cache_stats (snd ?s) = _")
proof -
  have s: "?s = ([Inr 1, Inr 2, Inl NotFound, Inr 1], snd ?s)"
    by (simp add: get_metadata_def cache_defs)
  define c where "c = snd ?s"
  have "snd (cache_stats c) = 2 \<and> fst (cache_stats c) = 1"
    using sequential_lookups_parse_once [OF s, folded c_def] by (simp add: insert_commute)
  then have "cache_stats c = (1, 2)" by (simp add: prod_eq_iff)
  then show ?thesis unfolding c_def .
qed

text \<open>Once a footer is cached, every later lookup of the file returns it, whatever options it
  asks for and even when the file has been rewritten since.\<close>

theorem cached_footer_is_never_refreshed:
  assumes "get_metadata read_footer c key options = (Inr md, c')" "i < length rs" "fst (rs ! i) = key"
  shows "fst (serve changed_footer c' rs) ! i = Inr md"
  by (rule serve_cached [OF get_metadata_stores [OF assms(1)] assms(2,3)])

theorem cached_footer_is_never_refreshed_witness:
  "fst (serve (\<lambda>key options. Inr (7 :: nat))
     (snd (get_metadata (\<lambda>key options. Inr 3) cache_default ''d/a.parquet'' True))
     [(''d/b.parquet'', True), (''d/a.parquet'', False)]) ! 1 = Inr 3"
proof -
  have "get_metadata (\<lambda>key options. Inr 3 :: pdq_error + nat) cache_default ''d/a.parquet'' True =
      (Inr 3, snd (get_metadata (\<lambda>key options. Inr 3) cache_default ''d/a.parquet'' True))"
    by (simp add: get_metadata_def cache_defs)
  from cached_footer_is_never_refreshed [OF this, of 1 "[(''d/b.parquet'', True), (''d/a.parquet'', False)]"]
  show ?thesis by simp
qed

text \<open>
  C24. However lookups in the footer cache interleave, each finished lookup returns metadata
  parsed from the footer of its own file, the cache holds only such metadata, and hits and misses
  together count the lookups that finished.
\<close>

theorem concurrent_lookups_are_sound:
  assumes "cache_sound read_footer c" "\<forall>r \<in> set rs. \<exists>key options. r = Waiting key options"
    "reader_run read_footer (c, rs) (c', rs')"
  shows "cache_sound read_footer c' \<and> (\<forall>key md. Finished key md \<in> set rs' \<longrightarrow> parse_of read_footer key md)
    \<and> cache_hits c' + cache_misses c' = cache_hits c + cache_misses c + of_nat (n_finished rs')"
proof -
  have "readers_ok read_footer (c, rs)" using assms(1,2) by (auto simp: readers_ok_def)
  from readers_ok_run [OF assms(3) this] have ok: "readers_ok read_footer (c', rs')" .
  then have "cache_sound read_footer c'" by (simp add: readers_ok_def)
  moreover from ok have "\<forall>key md. Finished key md \<in> set rs' \<longrightarrow> parse_of read_footer key md"
    by (fastforce simp: readers_ok_def)
  moreover have "filter finished rs = []" using assms(2) by (auto simp: filter_empty_conv)
  then have "cache_hits c' + cache_misses c' = cache_hits c + cache_misses c + of_nat (n_finished rs')"
    using balance_run [OF assms(3)] by (simp add: balance_def n_finished_def algebra_simps)
  ultimately show ?thesis by blast
qed



text \<open>Every reader of a list takes the same step in turn.\<close>

lemma reader_phase:
  assumes step: "\<And>c rs i. P c \<Longrightarrow> i < length rs \<Longrightarrow> rs ! i = x \<Longrightarrow>
      reader_step read_footer (c, rs) (f c, rs[i := y]) \<and> P (f c)"
    and "P c"
  shows "reader_run read_footer (c, replicate n x) ((f ^^ n) c, replicate n y) \<and> P ((f ^^ n) c)"
proof -
  have "reader_run read_footer (c, replicate n x) ((f ^^ k) c, replicate k y @ replicate (n - k) x)
      \<and> P ((f ^^ k) c)" if "k \<le> n" for k
    using that
  proof (induction k)
    case 0
    then show ?case using assms(2) by simp
  next
    case (Suc k)
    let ?rs = "replicate k y @ replicate (n - k) x"
    have "?rs ! k = x" "k < length ?rs" using Suc.prems by (simp_all add: nth_append)
    with step [of "(f ^^ k) c" k ?rs] Suc
    have s: "reader_step read_footer ((f ^^ k) c, ?rs) ((f ^^ Suc k) c, ?rs[k := y])"
      "P ((f ^^ Suc k) c)" by auto
    have "?rs[k := y] = replicate (Suc k) y @ replicate (n - Suc k) x"
      using Suc.prems by (cases "n - k") (auto simp: list_update_append replicate_app_Cons_same Suc_diff_Suc)
    with s Suc show ?case by (auto intro: rtranclp.rtrancl_into_rtrancl)
  qed
  from this [of n] show ?thesis by simp
qed

lemma count_all: "(cache_count_miss ^^ n) c = c\<lparr>cache_misses := cache_misses c + of_nat n\<rparr>"
  by (induction n) (simp_all add: cache_count_miss_def algebra_simps)

text \<open>There is an interleaving of n lookups of the same file in which all n parse its footer.\<close>

theorem concurrent_lookups_may_parse_twice:
  fixes read_footer :: "string \<Rightarrow> 'o \<Rightarrow> pdq_error + 'm"
  assumes "read_footer key options = Inr md"
  shows "\<exists>c. reader_run read_footer (cache_default, replicate n (Waiting key options))
      (c, replicate n (Finished key md)) \<and> cache_stats c = (0, of_nat n)"
proof -
  let ?c0 = "cache_default :: 'm metadata_cache" and ?pub = "\<lambda>c. cache_publish c key md"
  have id: "((\<lambda>c. c) ^^ n) c = c" for c :: "'m metadata_cache" by (induction n) simp_all
  have pub: "cache_hits ((?pub ^^ n) ?c0) = 0 \<and> cache_misses ((?pub ^^ n) ?c0) = 0"
    by (induction n) (simp_all add: cache_defs)
  from reader_phase [where P = "\<lambda>c. c = ?c0" and f = "\<lambda>c. c" and x = "Waiting key options"
      and y = "Missed key options" and c = ?c0 and n = n and read_footer = read_footer]
  have r1: "reader_run read_footer (?c0, replicate n (Waiting key options)) (?c0, replicate n (Missed key options))"
    unfolding id by (simp add: lookup_miss cache_defs)
  from reader_phase [where P = "\<lambda>c. True" and f = "\<lambda>c. c" and x = "Missed key options"
      and y = "Parsed key md" and c = ?c0 and n = n and read_footer = read_footer]
  have r2: "reader_run read_footer (?c0, replicate n (Missed key options)) (?c0, replicate n (Parsed key md))"
    unfolding id by (simp add: parse assms)
  from reader_phase [where P = "\<lambda>c. True" and f = ?pub and x = "Parsed key md :: ('o, 'm) reader"
      and y = "Counting key md" and c = ?c0 and n = n and read_footer = read_footer]
  have r3: "reader_run read_footer (?c0, replicate n (Parsed key md))
      ((?pub ^^ n) ?c0, replicate n (Counting key md))"
    by (simp add: publish)
  from reader_phase [where P = "\<lambda>c. True" and f = cache_count_miss and x = "Counting key md :: ('o, 'm) reader"
      and y = "Finished key md" and c = "(?pub ^^ n) ?c0" and n = n and read_footer = read_footer]
  have r4: "reader_run read_footer ((?pub ^^ n) ?c0, replicate n (Counting key md))
      ((cache_count_miss ^^ n) ((?pub ^^ n) ?c0), replicate n (Finished key md))"
    by (simp add: count)
  have "cache_stats ((cache_count_miss ^^ n) ((?pub ^^ n) ?c0)) = (0, of_nat n)"
    by (simp add: count_all cache_stats_def pub)
  with r1 r2 r3 r4 show ?thesis by (meson rtranclp_trans)
qed

theorem concurrent_lookups_may_parse_twice_witness:
  "\<exists>c. reader_run (\<lambda>key options. Inr (length key)) (cache_default, replicate 2 (Waiting ''abc'' ()))
      (c, replicate 2 (Finished ''abc'' 3)) \<and> cache_stats c = (0, of_nat 2)"
  by (rule concurrent_lookups_may_parse_twice) simp

theorem concurrent_lookups_are_sound_witness:
  "\<exists>c' :: nat metadata_cache. cache_sound (\<lambda>key (options :: unit). Inr (length key)) c'
    \<and> cache_hits c' + cache_misses c' = 2 \<and> parse_of (\<lambda>key (options :: unit). Inr (length key)) ''abc'' (3 :: nat)"
proof -
  let ?f = "\<lambda>key (options :: unit). Inr (length key) :: pdq_error + nat"
  have m: "reader_step ?f (cache_default, replicate 2 (Waiting ''abc'' ()))
      (cache_default, [Missed ''abc'' (), Waiting ''abc'' ()])"
    using lookup_miss [of 0 "replicate 2 (Waiting ''abc'' ())" "''abc''" "()" cache_default cache_default ?f]
    by (simp add: cache_defs numeral_2_eq_2)
  have p: "reader_step ?f (cache_default, [Missed ''abc'' (), Waiting ''abc'' ()])
      (cache_default, [Parsed ''abc'' 3, Waiting ''abc'' ()])"
    using parse [of 0 "[Missed ''abc'' (), Waiting ''abc'' ()]" "''abc''" "()" ?f 3 cache_default]
    by simp
  let ?c1 = "cache_publish cache_default ''abc'' (3 :: nat)"
  have q: "reader_step ?f (cache_default, [Parsed ''abc'' 3, Waiting ''abc'' ()])
      (?c1, [Counting ''abc'' 3, Waiting ''abc'' ()])"
    using publish [of 0 "[Parsed ''abc'' 3, Waiting ''abc'' ()]" "''abc''" 3 ?f cache_default] by simp
  let ?c2 = "?c1\<lparr>cache_hits := 1\<rparr>"
  have h: "reader_step ?f (?c1, [Counting ''abc'' 3, Waiting ''abc'' ()])
      (?c2, [Counting ''abc'' 3, Finished ''abc'' 3])"
    using lookup_hit [of 1 "[Counting ''abc'' 3, Waiting ''abc'' ()]" "''abc''" "()" ?c1 3 ?c2 ?f]
    by (simp add: cache_defs)
  have n: "reader_step ?f (?c2, [Counting ''abc'' 3, Finished ''abc'' 3])
      (cache_count_miss ?c2, [Finished ''abc'' 3, Finished ''abc'' 3])"
    using count [of 0 "[Counting ''abc'' 3, Finished ''abc'' 3]" "''abc''" 3 ?f ?c2] by simp
  have run: "reader_run ?f (cache_default, replicate 2 (Waiting ''abc'' ()))
      (cache_count_miss ?c2, [Finished ''abc'' 3, Finished ''abc'' 3])"
    using m p q h n by (meson converse_rtranclp_into_rtranclp rtranclp.rtrancl_refl)
  have s: "cache_sound ?f cache_default" by (simp add: cache_sound_def cache_defs)
  have w: "\<forall>r \<in> set (replicate 2 (Waiting ''abc'' () :: (unit, nat) reader)). \<exists>key options. r = Waiting key options"
    by simp
  have "n_finished [Finished ''abc'' (3 :: nat) :: (unit, nat) reader, Finished ''abc'' 3] = 2" by (simp add: n_finished_def)
  with concurrent_lookups_are_sound [OF s w run] have
    "cache_sound ?f (cache_count_miss ?c2) \<and> cache_hits (cache_count_miss ?c2) + cache_misses (cache_count_miss ?c2) = 2
      \<and> parse_of ?f ''abc'' 3" by (simp add: cache_default_def)
  then show ?thesis by blast
qed

section \<open>Building a provider\<close>



lemma infer_schema_from_directory_Inr:
  "infer_schema_from_directory C w dir = Inr m \<longleftrightarrow>
     (\<exists>s ss. map (infer_schema_from_file C w) (walk_parquet w dir) = map Inr (s # ss) \<and> merge_schemas C s ss = Inr m)"
  (is "_ \<longleftrightarrow> (\<exists>s ss. ?schemas = map Inr (s # ss) \<and> _)")
proof -
  have "infer_schema_from_directory C w dir = Inr m \<longleftrightarrow>
      (\<exists>ys. collect_results ?schemas = Inr ys \<and> ys \<noteq> [] \<and> merge_schemas C (hd ys) (tl ys) = Inr m)"
    unfolding infer_schema_from_directory_def
    by (cases "walk_parquet w dir"; cases "collect_results ?schemas") (auto simp: collect_results_Inr_iff)
  also have "\<dots> \<longleftrightarrow> (\<exists>s ss. ?schemas = map Inr (s # ss) \<and> merge_schemas C s ss = Inr m)"
    unfolding collect_results_Inr_iff by (metis list.collapse list.distinct(1) list.sel(1,3))
  finally show ?thesis .
qed

lemma provider_build_Inr_iff:
  "(\<exists>pv. provider_build C w b = Inr pv) \<longleftrightarrow>
     b_index_dir b \<noteq> None
     \<and> (\<exists>dir m. b_data_dir b = Some dir \<and> infer_schema_from_directory C w dir = Inr m)"
  by (auto simp: provider_build_def provider_new_def split: option.splits sum.splits)

theorem provider_build_succeeds_iff:
  "(\<exists>pv. provider_build C w b = Inr pv) \<longleftrightarrow>
     b_index_dir b \<noteq> None
     \<and> (\<exists>dir s ss m. b_data_dir b = Some dir
          \<and> map (infer_schema_from_file C w) (walk_parquet w dir) = map Inr (s # ss)
          \<and> merge_schemas C s ss = Inr m)"
  unfolding provider_build_Inr_iff infer_schema_from_directory_Inr by blast



end
