(* ===== verification/Legacy_Index.thy ===== *)
theory Legacy_Index
  imports Provider_Query
begin

text \<open>
  Indexes written before the number of row groups was recorded (the fourth line of
  \<open>metadata.txt\<close>): \<open>scan\<close> in \<open>src/provider.rs\<close> then reads the Parquet footer instead.  On unchanged
  files such an index plans the same scans as a fresh one, and \<open>build_index\<close> leaves it as it is.
\<close>

section \<open>Metadata without its fourth line\<close>

definition three_lines :: "string \<Rightarrow> string" where
  "three_lines content = concat (map (\<lambda>l. l @ ''\<newline>'') (take 3 (lines_of content)))"

definition drop_count :: "'f entry \<Rightarrow> 'f entry" where
  "drop_count entry =
     (case entry of OtherEntry \<Rightarrow> OtherEntry | IdxDir d \<Rightarrow> IdxDir (d\<lparr>meta := map_option three_lines (meta d)\<rparr>))"

definition drop_counts :: "path \<Rightarrow> 'f world \<Rightarrow> 'f world" where
  "drop_counts root w =
     w\<lparr>indexes := (indexes w)(root := map_option (map (apsnd drop_count)) (indexes w root))\<rparr>"

lemma data_drop_counts [simp]: "data (drop_counts root w) = data w"
  by (simp add: drop_counts_def)

lemma tree_of_drop_counts:
  "tree_of (drop_counts root w) dir = (if dir = root then map (apsnd drop_count) (tree_of w root) else tree_of w dir)"
  by (simp add: tree_of_def drop_counts_def split: option.split)

lemma drop_count_simps [simp]:
  "drop_count OtherEntry = OtherEntry"
  "drop_count (IdxDir d) = IdxDir (d\<lparr>meta := map_option three_lines (meta d)\<rparr>)"
  by (simp_all add: drop_count_def)

lemma map_of_apsnd: "map_of (map (apsnd g) t) h = map_option g (map_of t h)"
  by (induction t) auto

lemma map_of_tree_drop_counts:
  "map_of (tree_of (drop_counts root w) dir) h =
     (if dir = root then map_option drop_count (map_of (tree_of w root) h) else map_of (tree_of w dir) h)"
  by (simp add: tree_of_drop_counts map_of_apsnd)

lemma get_dir_drop_counts:
  "get_dir (drop_counts root w) root h =
     map_option (\<lambda>d. d\<lparr>meta := map_option three_lines (meta d)\<rparr>) (get_dir w root h)"
  by (simp add: get_dir_def map_of_tree_drop_counts split: option.split entry.split)

text \<open>What is left of the metadata the indexer writes.\<close>

lemma three_lines_metadata:
  assumes "path_ok p"
  shows "three_lines (metadata_content p mtime sz n) = p @ ''\<newline>'' @ show_nat mtime @ ''\<newline>'' @ show_nat sz @ ''\<newline>''"
  by (simp add: three_lines_def lines_of_metadata [OF assms])

lemma utf8_valid_three_lines:
  assumes "path_ok p"
  shows "utf8_valid (three_lines (metadata_content p mtime sz n))"
proof -
  have "utf8_valid ''\<newline>''" by (rule utf8_valid_ascii) (simp add: byte_val_def)
  with assms show ?thesis
    unfolding three_lines_metadata [OF assms] path_ok_def by (intro utf8_valid_append) simp_all
qed

lemma lines_of_three_lines:
  assumes "path_ok p"
  shows "lines_of (three_lines (metadata_content p mtime sz n)) = [p, show_nat mtime, show_nat sz]"
  unfolding three_lines_metadata [OF assms] using assms
  by (simp add: path_ok_def lines_of_line show_nat_line)

lemma needs_indexing_drop_counts:
  assumes "all_current L H S w root column" "p \<in> S"
  shows "needs_indexing root (drop_counts root w) p column = Inr False"
proof -
  from current_entry [OF assms] obtain f d ff where e: "map_of (data w) p = Some f" "good_file f"
    "path_ok p" "get_dir w root (calculate_file_hash p) = Some d" "meta d = Some (file_metadata p f)"
    "map_of (fsts d) (fst_name column) = Some (Complete ff)" by metis
  with good_file_bounds [OF e(2)] show ?thesis
    by (simp add: needs_indexing_def get_dir_drop_counts mtime_secs_good file_metadata_def
        utf8_valid_three_lines lines_of_three_lines Let_def)
qed

section \<open>An engine that differs in its counts\<close>

text \<open>
  Neither the lookups nor the pruning read the counts: on worlds whose transducers agree, an engine
  with other counts gives the same results and goes through the same states.
\<close>

abbreviation with_counts :: "(string \<times> nat) list \<Rightarrow> 's engine \<Rightarrow> 's engine" where
  "with_counts c e \<equiv> e\<lparr>row_group_counts := c\<rparr>"

lemma load_set_drop_counts: "load_set L (drop_counts root w) = load_set L w"
  by (auto simp: fun_eq_iff load_set_def map_of_tree_drop_counts split: option.split entry.split)

lemma get_or_load_set_counts:
  assumes "load_set L w2 = load_set L w"
  shows "get_or_load_set L w2 (with_counts c e) h column =
    apsnd (with_counts c) (get_or_load_set L w e h column)"
  by (simp add: get_or_load_set_def Let_def assms split: option.split sum.split)

lemma search_files_counts:
  assumes "load_set L w2 = load_set L w"
  shows "search_files L w2 (with_counts c e) column search hs =
    apsnd (with_counts c) (search_files L w e column search hs)"
proof (induction hs arbitrary: e)
  case (Cons h hs)
  show ?case
    unfolding search_files.simps get_or_load_set_counts [OF assms]
    by (cases "get_or_load_set L w e h column") (auto simp: Cons.IH split: option.split sum.split prod.split)
qed simp

lemma exact_search_counts:
  assumes "load_set L w2 = load_set L w"
  shows "exact_search L w2 (with_counts c e) column v = apsnd (with_counts c) (exact_search L w e column v)"
  by (auto simp: exact_search_def search_all_def search_files_counts [OF assms] resolve_match_def fun_eq_iff
      split: sum.split prod.split)

lemma prune_filters_counts:
  assumes "load_set L w2 = load_set L w"
  shows "prune_filters L w2 to_string (with_counts c e) filters pr =
    apsnd (with_counts c) (prune_filters L w to_string e filters pr)"
proof (induction filters arbitrary: e pr)
  case (Cons f fs)
  show ?case
    by (auto simp: exact_search_counts [OF assms] Cons.IH split: option.split sum.split prod.split)
qed simp

lemma prune_with_fst_index_counts:
  assumes "load_set L w2 = load_set L w"
  shows "prune_with_fst_index L w2 to_string (with_counts c e) filters =
    apsnd (with_counts c) (prune_with_fst_index L w to_string e filters)"
  by (simp add: prune_with_fst_index_def prune_filters_counts [OF assms] split: prod.split)

lemma build_file_map_drop_counts:
  assumes "\<forall>(h, entry) \<in> set t. case entry of OtherEntry \<Rightarrow> True
    | IdxDir d \<Rightarrow> \<exists>p f. path_ok p \<and> meta d = Some (file_metadata p f)"
  shows "build_file_map (map (apsnd drop_count) t) m [] = (fst (build_file_map t m counts), [])"
  using assms
proof (induction t arbitrary: m counts)
  case (Cons x t)
  obtain h entry where x: "x = (h, entry)" by (cases x)
  note IH = Cons.IH [OF ballI [OF bspec [OF Cons.prems]], OF list.set_intros(2)]
  show ?case
  proof (cases entry)
    case (IdxDir d)
    with Cons.prems x obtain p f where p: "path_ok p" "meta d = Some (file_metadata p f)" by auto
    then have l: "metadata_lines (d\<lparr>meta := map_option three_lines (meta d)\<rparr>) = [p, show_nat (secs_of f), show_nat (fsize f)]"
      "metadata_lines d = [p, show_nat (secs_of f), show_nat (fsize f), show_nat (num_row_groups_of f)]"
      by (simp_all add: metadata_lines_def file_metadata_def utf8_valid_three_lines lines_of_three_lines
          utf8_valid_metadata lines_of_metadata)
    show ?thesis
      unfolding x IdxDir by (simp add: l IH split: sum.split)
  qed (simp add: x IH)
qed simp

lemma engine_new_drop_counts:
  assumes "all_current L H S w root column"
  shows "engine_new (drop_counts root w) root = with_counts [] (engine_new w root)"
proof -
  have tree: "distinct (map fst (tree_of w root))" "set (map fst (tree_of w root)) \<subseteq> calculate_file_hash ` S"
    using assms by (simp_all add: all_current_def tree_within_def)
  have "case entry of OtherEntry \<Rightarrow> True | IdxDir d \<Rightarrow> \<exists>p f. path_ok p \<and> meta d = Some (file_metadata p f)"
    if x: "(h, entry) \<in> set (tree_of w root)" for h entry
  proof -
    from x tree(2) obtain p where p: "p \<in> S" "h = calculate_file_hash p" by force
    from current_entry [OF assms p(1)] obtain f d where "path_ok p" "get_dir w root h = Some d"
      "meta d = Some (file_metadata p f)" unfolding p(2) by metis
    moreover have "map_of (tree_of w root) h = Some entry" using x tree(1) by simp
    ultimately show ?thesis by (auto simp: get_dir_def split: entry.splits)
  qed
  then have "\<forall>(h, entry) \<in> set (tree_of w root). case entry of OtherEntry \<Rightarrow> True
    | IdxDir d \<Rightarrow> \<exists>p f. path_ok p \<and> meta d = Some (file_metadata p f)" by blast
  from build_file_map_drop_counts [OF this, of "[]" "[]"] show ?thesis
    by (simp add: engine_new_def tree_of_drop_counts split: prod.split)
qed

section \<open>The scan\<close>

text \<open>Canonical paths and the files behind them depend on the data files only.\<close>

definition paths_of_data :: "('v, 'x, 'p, 'a, 'f) scan_lib \<Rightarrow> bool" where
  "paths_of_data S \<longleftrightarrow>
     (\<forall>w w2. data w2 = data w \<longrightarrow> canonicalize S w2 = canonicalize S w \<and> file_behind S w2 = file_behind S w)"

lemma plan_file_counts:
  assumes "map_of htp h = Some p" "map_of (data w) p = Some f" "good_file f" "paths_ok S w"
    "num_row_groups e h = Some (num_row_groups_of f)" "canonicalize S w2 = canonicalize S w"
    "file_behind S w2 = file_behind S w"
  shows "plan_file S w2 (with_counts [] e) htp h rgs = plan_file S w e htp h rgs"
proof -
  from assms(2,4) have "case map_of (data w) p of
        None \<Rightarrow> canonicalize S w p = None
      | Some f \<Rightarrow> \<exists>q loc. canonicalize S w p = Some q \<and> file_behind S w q = Some f \<and> store_path S q = Some loc"
    unfolding paths_ok_def by blast
  with assms(2) obtain q where q: "canonicalize S w p = Some q" "file_behind S w q = Some f" by auto
  from assms(3) obtain rgs' where "contents f = Inr rgs'" "num_row_groups_of f = length rgs'"
    by (auto simp: good_file_def num_row_groups_of_def split: sum.splits)
  with q assms(1,5) show ?thesis
    by (simp add: plan_file_def row_group_count_def num_row_groups_def assms(6,7) Let_def)
qed

lemma plan_files_cong:
  "\<forall>(h, rgs) \<in> set frg. plan_file S w2 e2 htp h rgs = plan_file S w e htp h rgs \<Longrightarrow>
   plan_files S w2 e2 htp frg = plan_files S w e htp frg"
  by (induction frg) (auto split: sum.split option.split)

lemma scan_drop_counts:
  assumes "all_current L H D w root column" "paths_ok S w" "paths_of_data S"
    "\<forall>(c, v) \<in> set (lookups (literal_string S) filters). c = column"
    "index_engine pv = engine_new w root" "index_engine pv2 = engine_new (drop_counts root w) root"
    "metadata_size_hint pv2 = metadata_size_hint pv"
  shows "fst (scan L S (drop_counts root w) pv2 projection filters limit) = fst (scan L S w pv projection filters limit)"
proof -
  have inj: "inj_on calculate_file_hash D" using assms(1) by (simp add: all_current_def buildable_def)
  have served: "lookups_served L H D w root (\<lambda>_. True) (lookups (literal_string S) filters)"
    using assms(1,4) by (auto simp: lookups_served_def)
  have op: "opened_on L w root (index_engine pv)" by (simp add: assms(5))
  from prune_with_fst_index_groups [OF inj served op] obtain frg htp e' where pr:
    "prune_with_fst_index L w (literal_string S) (index_engine pv) filters = ((frg, htp), e')"
    "opened_on L w root e'"
    "\<forall>(h, rgs) \<in> set frg. \<exists>p \<in> D. h = calculate_file_hash p \<and> map_of htp h = Some p \<and> sorted rgs \<and> distinct rgs"
    by blast
  have pr2: "prune_with_fst_index L (drop_counts root w) (literal_string S) (index_engine pv2) filters =
      ((frg, htp), with_counts [] e')"
    unfolding assms(6) engine_new_drop_counts [OF assms(1)] prune_with_fst_index_counts [OF load_set_drop_counts]
    using pr(1) by (simp add: assms(5))
  have paths: "canonicalize S (drop_counts root w) = canonicalize S w"
    "file_behind S (drop_counts root w) = file_behind S w"
    using assms(3) data_drop_counts unfolding paths_of_data_def by blast+
  have "plan_file S (drop_counts root w) (with_counts [] e') htp h rgs = plan_file S w e' htp h rgs"
    if hr: "(h, rgs) \<in> set frg" for h rgs
  proof -
    from pr(3) hr obtain p where p: "p \<in> D" "h = calculate_file_hash p" "map_of htp h = Some p" by blast
    from current_entry [OF assms(1) p(1)] obtain f where f: "map_of (data w) p = Some f" "good_file f" by metis
    from current_file_map(4) [OF assms(1) p(1) f(1)] pr(2)
    have "num_row_groups e' h = Some (num_row_groups_of f)"
      by (simp add: opened_on_def same_index_def num_row_groups_def p(2))
    from plan_file_counts [OF p(3) f assms(2) this paths] show ?thesis .
  qed
  then have "plan_files S (drop_counts root w) (with_counts [] e') htp frg = plan_files S w e' htp frg"
    by (intro plan_files_cong) (simp add: case_prod_beta)
  note same = this
  show ?thesis
    unfolding scan_def pr(1) pr2 prod.case same assms(7) Let_def
    by (cases "check_projection S projection"; cases "df_schema S"; cases "scan_filter S filters";
        cases "find_object_store S"; cases "plan_files S w e' htp frg") simp_all
qed

text \<open>
  C13. An index whose metadata lack the number of row groups, as older versions wrote them, is
  taken as up to date by build_index, which leaves it as it is, and on unchanged files every scan
  of the indexed column gives the same configuration as on a fresh index.
\<close>

theorem legacy_index_scans_the_same:
  fixes L :: "('b, 'f, 's) fst_lib"
  assumes "fst_ok L" "index_history L dir root column H w" "stat_determines H" "\<forall>w'. paths_ok S w'"
    "paths_of_data S" "\<forall>(c, v) \<in> set (lookups (literal_string S) filters). c = column"
  shows "\<exists>w'. build_index L root w dir column = (Inr (), w')
    \<and> build_index L root (drop_counts root w') dir column = (Inr (), drop_counts root w')
    \<and> (\<forall>pv pv2 :: ('s, 'sch, 'm) provider.
         index_engine pv = engine_new w' root \<longrightarrow> index_engine pv2 = engine_new (drop_counts root w') root \<longrightarrow>
         metadata_size_hint pv2 = metadata_size_hint pv \<longrightarrow>
         fst (scan L S (drop_counts root w') pv2 projection filters limit) = fst (scan L S w' pv projection filters limit))"
proof -
  from history_built [OF assms(1-3)] obtain w' where w': "build_index L root w dir column = (Inr (), w')"
    "walk_parquet w' dir = walk_parquet w dir"
    "all_current L H (set (walk_parquet w dir)) w' root column" by metis
  have "has_root (drop_counts root w') root"
    using build_index_root [OF w'(1)] by (auto simp: has_root_def drop_counts_def)
  then have "create_root root (drop_counts root w') = drop_counts root w'" by (rule create_root_id)
  moreover have "build_files L root column False (drop_counts root w') (walk_parquet (drop_counts root w') dir) =
      (Inr (), drop_counts root w')"
    by (rule build_files_skip)
       (use needs_indexing_drop_counts [OF w'(3)] w'(2) in \<open>auto simp: walk_parquet_def\<close>)
  ultimately have "build_index L root (drop_counts root w') dir column = (Inr (), drop_counts root w')"
    by (simp add: build_index_def build_index_ext_def)
  with w'(1) scan_drop_counts [OF w'(3) assms(4) [rule_format] assms(5,6)] show ?thesis by blast
qed

theorem legacy_index_scans_the_same_witness:
  "\<exists>w'. build_index list_fst ''pdq-index'' ex_world ''d'' ''ip'' = (Inr (), w')
    \<and> build_index list_fst ''pdq-index'' (drop_counts ''pdq-index'' w') ''d'' ''ip'' = (Inr (), drop_counts ''pdq-index'' w')
    \<and> fst (scan list_fst list_lib (drop_counts ''pdq-index'' w') (ex_provider (drop_counts ''pdq-index'' w')) None
          [ip_is ''1.2'', OtherExpr ()] None) =
        fst (scan list_fst list_lib w' (ex_provider w') None [ip_is ''1.2'', OtherExpr ()] None)"
proof -
  have d: "paths_of_data list_lib" by (simp add: paths_of_data_def list_lib_def)
  have l: "\<forall>(c, v) \<in> set (lookups (literal_string list_lib) [ip_is ''1.2'', OtherExpr ()]). c = ''ip''"
    by (simp add: ip_lookups)
  from legacy_index_scans_the_same [where 'sch = unit and 'm = unit, OF list_fst_ok ex_history ex_stat list_lib_paths
      d l, of None None]
  obtain w' where w': "build_index list_fst ''pdq-index'' ex_world ''d'' ''ip'' = (Inr (), w')"
    "build_index list_fst ''pdq-index'' (drop_counts ''pdq-index'' w') ''d'' ''ip'' = (Inr (), drop_counts ''pdq-index'' w')"
    and sc: "\<And>(pv :: (string list, unit, unit) provider) (pv2 :: (string list, unit, unit) provider).
      index_engine pv = engine_new w' ''pdq-index'' \<Longrightarrow>
      index_engine pv2 = engine_new (drop_counts ''pdq-index'' w') ''pdq-index'' \<Longrightarrow>
      metadata_size_hint pv2 = metadata_size_hint pv \<Longrightarrow>
      fst (scan list_fst list_lib (drop_counts ''pdq-index'' w') pv2 None [ip_is ''1.2'', OtherExpr ()] None) =
        fst (scan list_fst list_lib w' pv None [ip_is ''1.2'', OtherExpr ()] None)" by blast
  from w' sc [of "ex_provider w'" "ex_provider (drop_counts ''pdq-index'' w')"] show ?thesis
    by (simp add: ex_provider_def)
qed

end
