(* ===== verification/Corpus_Gen.thy ===== *)
theory Corpus_Gen
  imports World "HOL-Library.State_Monad"
begin

unbundle bit_operations_syntax

text \<open>
  The corpus generator of the benchmarks (\<open>src/corpus_gen.rs\<close>): its xorshift64 generator, the
  random filler, \<open>build_batch\<close> with its planted values, and \<open>write_corpus\<close>.

  The generator is threaded through \<open>State_Monad\<close> in the order in which the code evaluates its
  calls.  A panic is the outcome \<open>Panics\<close>.  \<open>write_corpus\<close> gives the files it leaves on disk, also
  when it fails or panics, each with the batches flushed to it, one row group per batch; a file that
  was not closed has no footer.  \<open>checks\<close> tells whether the crate is compiled
  with overflow checks (debug) or wraps around (release), and \<open>limit_ok\<close> which row group limits the
  Parquet writer takes (its \<open>WriterProperties\<close> panic on the others).
\<close>

datatype 'a outcome = Panics | Fails pdq_error | Returns 'a

section \<open>Random numbers\<close>

text \<open>\<open>Rng(u64)\<close>.\<close>

type_synonym rng = u64

definition rng_new :: "u64 \<Rightarrow> rng" where
  "rng_new seed = max seed 1"

definition xorshift :: "u64 \<Rightarrow> u64" where
  "xorshift x =
     (let x = x XOR push_bit 13 x;
          x = x XOR drop_bit 7 x
      in x XOR push_bit 17 x)"

definition next_u64 :: "(rng, u64) state" where
  "next_u64 = do {
     x \<leftarrow> State_Monad.get;
     State_Monad.set (xorshift x);
     State_Monad.return (xorshift x)
   }"

text \<open>The remainder; every call has a literal \<open>n > 0\<close>, so the code cannot divide by zero.\<close>

definition below :: "u64 \<Rightarrow> (rng, u64) state" where
  "below n = do { x \<leftarrow> next_u64; State_Monad.return (x mod n) }"

section \<open>Filler\<close>

definition show_u64 :: "u64 \<Rightarrow> string" where
  "show_u64 x = show_nat (unat x)"

definition rand_ip :: "(rng, string) state" where
  "rand_ip = do {
     a \<leftarrow> below 255;
     b \<leftarrow> below 256;
     c \<leftarrow> below 256;
     d \<leftarrow> below 255;
     State_Monad.return
       (show_u64 (1 + a) @ ''.'' @ show_u64 b @ ''.'' @ show_u64 c @ ''.'' @ show_u64 (1 + d))
   }"

definition rand_domain :: "(rng, string) state" where
  "rand_domain = do {
     t \<leftarrow> below 4;
     n \<leftarrow> below 5;
     s \<leftarrow> below 4;
     State_Monad.return
       ([''www'', ''api'', ''mail'', ''cdn''] ! unat s @ ''.'' @
        [''alpha'', ''bravo'', ''delta'', ''omega'', ''zulu''] ! unat n @ ''.'' @
        [''com'', ''net'', ''org'', ''io''] ! unat t)
   }"

text \<open>\<open>str::split\<close> on a character, and \<open>join\<close>.\<close>

fun split_char :: "char \<Rightarrow> string \<Rightarrow> string list" where
  "split_char sep [] = [[]]"
| "split_char sep (c # cs) =
     (if c = sep then [] # split_char sep cs
      else (case split_char sep cs of [] \<Rightarrow> [[c]] | l # ls \<Rightarrow> (c # l) # ls))"

fun join_strings :: "string \<Rightarrow> string list \<Rightarrow> string" where
  "join_strings sep [] = []"
| "join_strings sep [l] = l"
| "join_strings sep (l # ls) = l @ sep @ join_strings sep ls"

definition reverse_domain :: "string \<Rightarrow> string" where
  "reverse_domain domain = join_strings ''.'' (rev (split_char CHR ''.'' domain))"

section \<open>Batches\<close>

text \<open>One batch: the five columns of \<open>schema\<close>.\<close>

record corpus_batch =
  src_ip :: "string list"
  dst_ip :: "string list"
  domain_rev :: "string list"
  email :: "string list"
  bytes :: "u64 list"

type_synonym injection = "string \<times> nat \<times> string"

text \<open>\<open>target[row] = val\<close> panics past the end of the column.\<close>

definition set_row :: "nat \<Rightarrow> string \<Rightarrow> string list \<Rightarrow> string list outcome" where
  "set_row row val target = (if row < length target then Returns (target[row := val]) else Panics)"

fun map_outcome :: "('a \<Rightarrow> 'b) \<Rightarrow> 'a outcome \<Rightarrow> 'b outcome" where
  "map_outcome f Panics = Panics"
| "map_outcome f (Fails e) = Fails e"
| "map_outcome f (Returns x) = Returns (f x)"

fun inject :: "injection \<Rightarrow> corpus_batch \<Rightarrow> corpus_batch outcome" where
  "inject (col, row, val) b =
     (if col = ''src_ip'' then map_outcome (\<lambda>t. b\<lparr>src_ip := t\<rparr>) (set_row row val (src_ip b))
      else if col = ''dst_ip'' then map_outcome (\<lambda>t. b\<lparr>dst_ip := t\<rparr>) (set_row row val (dst_ip b))
      else if col = ''domain_rev'' then map_outcome (\<lambda>t. b\<lparr>domain_rev := t\<rparr>) (set_row row val (domain_rev b))
      else if col = ''email'' then map_outcome (\<lambda>t. b\<lparr>email := t\<rparr>) (set_row row val (email b))
      else Fails (Missing (''cannot inject into unknown column '' @ col)))"

fun inject_all :: "injection list \<Rightarrow> corpus_batch \<Rightarrow> corpus_batch outcome" where
  "inject_all [] b = Returns b"
| "inject_all (i # is) b =
     (case inject i b of Panics \<Rightarrow> Panics | Fails e \<Rightarrow> Fails e | Returns b' \<Rightarrow> inject_all is b')"

definition filler :: "nat \<Rightarrow> (rng, corpus_batch) state" where
  "filler n_rows = do {
     s \<leftarrow> traverse_list (\<lambda>_. rand_ip) [0..<n_rows];
     d \<leftarrow> traverse_list (\<lambda>_. rand_ip) [0..<n_rows];
     r \<leftarrow> traverse_list (\<lambda>_. do { x \<leftarrow> rand_domain; State_Monad.return (reverse_domain x) }) [0..<n_rows];
     e \<leftarrow> traverse_list (\<lambda>_. do {
            u \<leftarrow> below 100000;
            x \<leftarrow> rand_domain;
            State_Monad.return (''user'' @ show_u64 u @ ''@'' @ x) }) [0..<n_rows];
     b \<leftarrow> traverse_list (\<lambda>_. do { x \<leftarrow> below 1436; State_Monad.return (64 + x) }) [0..<n_rows];
     State_Monad.return \<lparr>src_ip = s, dst_ip = d, domain_rev = r, email = e, bytes = b\<rparr>
   }"

definition build_batch :: "nat \<Rightarrow> injection list \<Rightarrow> (rng, corpus_batch outcome) state" where
  "build_batch n_rows injected = do {
     b \<leftarrow> filler n_rows;
     State_Monad.return (inject_all injected b)
   }"

text \<open>\<open>RecordBatch::try_new\<close> with the columns in the order of the schema.\<close>

definition record_batch_of :: "corpus_batch \<Rightarrow> batch" where
  "record_batch_of b =
     [(''src_ip'', StringArray (map Some (src_ip b))), (''dst_ip'', StringArray (map Some (dst_ip b))),
      (''domain_rev'', StringArray (map Some (domain_rev b))), (''email'', StringArray (map Some (email b))),
      (''bytes'', OtherArray)]"

section \<open>The corpus\<close>

definition SINGLE_NEEDLE :: string where "SINGLE_NEEDLE = ''192.168.133.7''"
definition PREFIX_VALUE :: string where "PREFIX_VALUE = ''192.168.133.42''"
definition DOMAIN_VALUE :: string where "DOMAIN_VALUE = ''com.evil.www''"

definition multi_ioc :: "nat \<Rightarrow> string" where
  "multi_ioc fi = ''10.'' @ show_nat (fi div 256) @ ''.'' @ show_nat (fi mod 256) @ ''.7''"

definition injections :: "nat \<Rightarrow> nat \<Rightarrow> nat \<Rightarrow> nat \<Rightarrow> injection list" where
  "injections needle_file needle_rg fi rgi =
     (if rgi = 0 then [(''src_ip'', 0, multi_ioc fi)] else []) @
     (if fi = 0 \<and> rgi = 0 then [(''src_ip'', 1, PREFIX_VALUE), (''domain_rev'', 0, DOMAIN_VALUE)] else []) @
     (if fi = needle_file \<and> rgi = needle_rg then [(''src_ip'', 2, SINGLE_NEEDLE)] else [])"

text \<open>The row group loop of one file, with the batches flushed so far.\<close>

fun write_row_groups ::
  "nat \<Rightarrow> (nat \<Rightarrow> injection list) \<Rightarrow> nat list \<Rightarrow> rng \<Rightarrow> corpus_batch list \<times> unit outcome" where
  "write_row_groups rows injected [] rng = ([], Returns ())"
| "write_row_groups rows injected (rgi # rgis) rng =
     (case run_state (build_batch rows (injected rgi)) rng of
        (Panics, _) \<Rightarrow> ([], Panics)
      | (Fails e, _) \<Rightarrow> ([], Fails e)
      | (Returns b, rng') \<Rightarrow>
          (case write_row_groups rows injected rgis rng' of (batches, r) \<Rightarrow> (b # batches, r)))"

definition file_seed :: "u64 \<Rightarrow> nat \<Rightarrow> u64" where
  "file_seed seed fi = (seed + of_nat fi) * 0x9E3779B97F4A7C15"

definition corpus_path :: "path \<Rightarrow> nat \<Rightarrow> path" where
  "corpus_path data_dir fi =
     (if data_dir = [] \<or> last data_dir = CHR ''/'' then data_dir else data_dir @ ''/'') @
     ''part_'' @ replicate (5 - length (show_nat fi)) CHR ''0'' @ show_nat fi @ ''.parquet''"

text \<open>A closed Parquet file, or one its writer was dropped without closing.\<close>

datatype written_file = Closed "corpus_batch list" | Unfinished "corpus_batch list"

text \<open>The file is created before the writer's options are checked.\<close>

fun write_files ::
  "(nat \<Rightarrow> bool) \<Rightarrow> path \<Rightarrow> nat \<Rightarrow> nat \<Rightarrow> nat \<Rightarrow> nat \<Rightarrow> u64 \<Rightarrow> nat list
   \<Rightarrow> (path \<times> written_file) list \<times> unit outcome" where
  "write_files limit_ok data_dir needle_file needle_rg row_groups rows seed [] = ([], Returns ())"
| "write_files limit_ok data_dir needle_file needle_rg row_groups rows seed (fi # fis) =
     (let path = corpus_path data_dir fi
      in if \<not> limit_ok rows then ([(path, Unfinished [])], Panics)
         else case write_row_groups rows (injections needle_file needle_rg fi) [0..<row_groups]
                (rng_new (file_seed seed fi)) of
           (batches, Panics) \<Rightarrow> ([(path, Unfinished batches)], Panics)
         | (batches, Fails e) \<Rightarrow> ([(path, Unfinished batches)], Fails e)
         | (batches, Returns _) \<Rightarrow>
             (case write_files limit_ok data_dir needle_file needle_rg row_groups rows seed fis of
                (files, r) \<Rightarrow> ((path, Closed batches) # files, r)))"

text \<open>\<open>n - 1\<close> on \<open>usize\<close>.\<close>

definition usize_pred :: "bool \<Rightarrow> nat \<Rightarrow> nat outcome" where
  "usize_pred checks n =
     (if 0 < n then Returns (n - 1) else if checks then Panics else Returns (usize_bound - 1))"

definition write_corpus ::
  "(nat \<Rightarrow> bool) \<Rightarrow> bool \<Rightarrow> path \<Rightarrow> nat \<Rightarrow> nat \<Rightarrow> nat \<Rightarrow> u64 \<Rightarrow> (path \<times> written_file) list \<times> unit outcome" where
  "write_corpus limit_ok checks data_dir n_files row_groups_per_file rows_per_group seed =
     (case usize_pred checks n_files of
        Panics \<Rightarrow> ([], Panics)
      | Fails e \<Rightarrow> ([], Fails e)
      | Returns needle_file \<Rightarrow>
          (case usize_pred checks row_groups_per_file of
             Panics \<Rightarrow> ([], Panics)
           | Fails e \<Rightarrow> ([], Fails e)
           | Returns needle_rg \<Rightarrow>
               write_files limit_ok data_dir needle_file needle_rg row_groups_per_file rows_per_group seed [0..<n_files]))"

end
