(* ===== verification/Corpus_Properties.thy ===== *)
theory Corpus_Properties
  imports Index_Query Corpus_Gen
begin

text \<open>
  What the corpus generator guarantees: its generator never reaches the fixed point zero, its
  addresses have octets in range, reversing a domain is an involution, \<open>write_corpus\<close> plants what
  it says and panics exactly when there is no place to plant, and a search in the index of the
  corpus finds the needle.
\<close>

section \<open>The generator\<close>

lemma push_bit_fixpoint: "(x :: 'a::len word) = push_bit n x \<Longrightarrow> 0 < n \<Longrightarrow> x = 0"
proof (rule bit_word_eqI)
  fix i
  assume x: "x = push_bit n x" "0 < n"
  show "bit x i \<longleftrightarrow> bit (0 :: 'a word) i"
  proof (induction i rule: less_induct)
    case (less i)
    have "bit x i \<longleftrightarrow> n \<le> i \<and> bit x (i - n) \<and> i < LENGTH('a)"
      by (subst x(1)) (auto simp: bit_push_bit_iff)
    with less x(2) show ?case by auto
  qed
qed

lemma drop_bit_fixpoint: "(x :: 'a::len word) = drop_bit n x \<Longrightarrow> 0 < n \<Longrightarrow> x = 0"
proof (rule bit_word_eqI)
  fix i
  assume x: "x = drop_bit n x" "0 < n"
  have step: "bit x i \<longleftrightarrow> bit x (i + n)" for i
    by (subst x(1)) (simp add: bit_drop_bit_eq add.commute)
  have "bit x i \<longleftrightarrow> bit x (i + k * n)" for k
    by (induction k) (simp_all add: step [symmetric] add.assoc [symmetric] add.commute [of n])
  from this [of "LENGTH('a)"] have "bit x i \<longleftrightarrow> bit x (i + LENGTH('a) * n)" .
  moreover have "\<not> bit x (i + LENGTH('a) * n)"
    using x(2) bit_imp_le_length [of x "i + LENGTH('a) * n"] by (cases n) auto
  ultimately show "bit x i \<longleftrightarrow> bit (0 :: 'a word) i" by simp
qed

lemma xor_zero_iff: "x XOR y = 0 \<longleftrightarrow> x = (y :: 'a::len word)"
  by (metis xor.left_neutral xor_self_eq word_bw_assocs(3))

lemma xorshift_nonzero: "x \<noteq> 0 \<Longrightarrow> xorshift x \<noteq> 0"
  unfolding xorshift_def Let_def xor_zero_iff
  by (metis drop_bit_fixpoint push_bit_fixpoint xor_zero_iff zero_less_numeral)


section \<open>Shapes\<close>

definition batch_shape :: "nat \<Rightarrow> corpus_batch \<Rightarrow> bool" where
  "batch_shape n b \<longleftrightarrow> length (src_ip b) = n \<and> length (dst_ip b) = n \<and> length (domain_rev b) = n
     \<and> length (email b) = n \<and> length (bytes b) = n"

lemma length_traverse_list [simp]: "length (fst (run_state (traverse_list f xs) s)) = length xs"
  by (induction xs arbitrary: s) (auto simp: split_beta)

lemma traverse_list_length: "run_state (traverse_list f xs) s = (ys, s') \<Longrightarrow> length ys = length xs"
  using length_traverse_list [of f xs s] by simp

lemma filler_shape: "run_state (filler n) s = (b, s') \<Longrightarrow> batch_shape n b"
  unfolding filler_def batch_shape_def
  by (auto simp: traverse_list_length split: prod.splits)

text \<open>An injection of a known column and a row of the batch.\<close>

definition injectable :: "nat \<Rightarrow> injection \<Rightarrow> bool" where
  "injectable n i \<longleftrightarrow> (case i of (col, row, val) \<Rightarrow>
     row < n \<and> col \<in> {''src_ip'', ''dst_ip'', ''domain_rev'', ''email''})"

lemma inject_ok:
  "batch_shape n b \<Longrightarrow> injectable n i \<Longrightarrow> \<exists>b'. inject i b = Returns b' \<and> batch_shape n b'"
  by (cases i) (auto simp: injectable_def batch_shape_def set_row_def)

lemma inject_all_ok:
  "batch_shape n b \<Longrightarrow> list_all (injectable n) is \<Longrightarrow> \<exists>b'. inject_all is b = Returns b' \<and> batch_shape n b'"
proof (induction "is" arbitrary: b)
  case (Cons i "is")
  then obtain b1 where "inject i b = Returns b1" "batch_shape n b1" using inject_ok by fastforce
  with Cons show ?case by auto
qed simp

lemma build_batch_result:
  "run_state (build_batch n injected) s = (r, s') \<Longrightarrow> \<exists>b. batch_shape n b \<and> r = inject_all injected b"
  unfolding build_batch_def by (auto split: prod.splits dest: filler_shape)

text \<open>A batch that was filled and then injected into.\<close>

definition planted :: "nat \<Rightarrow> injection list \<Rightarrow> corpus_batch \<Rightarrow> bool" where
  "planted n injected b \<longleftrightarrow> (\<exists>b0. batch_shape n b0 \<and> inject_all injected b0 = Returns b)"

text \<open>An injection past the end of its column panics, and injections never fail otherwise.\<close>

definition known :: "injection \<Rightarrow> bool" where
  "known i \<longleftrightarrow> fst i \<in> {''src_ip'', ''dst_ip'', ''domain_rev'', ''email''}"

lemma inject_panics: "batch_shape n b \<Longrightarrow> known i \<Longrightarrow> \<not> injectable n i \<Longrightarrow> inject i b = Panics"
  by (cases i) (auto simp: injectable_def known_def batch_shape_def set_row_def)

lemma inject_all_panics:
  "batch_shape n b \<Longrightarrow> list_all known is \<Longrightarrow> \<not> list_all (injectable n) is \<Longrightarrow> inject_all is b = Panics"
proof (induction "is" arbitrary: b)
  case (Cons i "is")
  show ?case
  proof (cases "injectable n i")
    case True
    with Cons.prems inject_ok obtain b1 where "inject i b = Returns b1" "batch_shape n b1" by blast
    with Cons True show ?thesis by auto
  next
    case False
    with Cons.prems inject_panics show ?thesis by fastforce
  qed
qed simp

lemma inject_all_no_failure:
  "batch_shape n b \<Longrightarrow> list_all known is \<Longrightarrow> inject_all is b \<noteq> Fails e"
  using inject_all_ok [of n b "is"] inject_all_panics [of n b "is"] by fastforce

section \<open>Injections of the corpus\<close>



lemma injections_injectable: "3 \<le> n \<Longrightarrow> list_all (injectable n) (injections nf nrg fi rgi)"
  by (simp add: injections_def injectable_def)

lemma planted_multi:
  "planted n (injections nf nrg fi 0) b \<Longrightarrow> 3 \<le> n \<Longrightarrow> src_ip b ! 0 = multi_ioc fi"
  by (auto simp: planted_def injections_def batch_shape_def set_row_def
      simp del: length_greater_0_conv split: if_splits)

lemma planted_first:
  "planted n (injections nf nrg 0 0) b \<Longrightarrow> 3 \<le> n \<Longrightarrow>
   src_ip b ! 1 = PREFIX_VALUE \<and> domain_rev b ! 0 = DOMAIN_VALUE"
  by (auto simp: planted_def injections_def batch_shape_def set_row_def
      simp del: length_greater_0_conv split: if_splits)

lemma planted_single:
  "planted n (injections nf nrg nf nrg) b \<Longrightarrow> 3 \<le> n \<Longrightarrow> src_ip b ! 2 = SINGLE_NEEDLE"
  by (auto simp: planted_def injections_def batch_shape_def set_row_def
      simp del: length_greater_0_conv split: if_splits)


section \<open>Row groups and files\<close>

text \<open>
  Row groups are written up to the first one with an injection past its end, which panics.
\<close>

abbreviation row_group_written :: "nat \<Rightarrow> (nat \<Rightarrow> injection list) \<Rightarrow> nat \<Rightarrow> corpus_batch \<Rightarrow> bool" where
  "row_group_written n injected k b \<equiv> planted n (injected k) b \<and> batch_shape n b"

lemma write_row_groups_append:
  assumes "\<forall>k \<in> set ks. list_all (injectable n) (injected k)"
  shows "\<exists>bs rng'. list_all2 (row_group_written n injected) ks bs
    \<and> (\<forall>ks'. write_row_groups n injected (ks @ ks') rng =
          (case write_row_groups n injected ks' rng' of (bs', r) \<Rightarrow> (bs @ bs', r)))"
  using assms
proof (induction ks arbitrary: rng)
  case Nil
  show ?case by (intro exI [of _ "[]"] exI [of _ rng]) simp
next
  case (Cons k ks)
  obtain r rng1 where r: "run_state (build_batch n (injected k)) rng = (r, rng1)" by fastforce
  from build_batch_result [OF r] obtain b0 where b0: "batch_shape n b0" "r = inject_all (injected k) b0" by blast
  with Cons.prems inject_all_ok [of n b0 "injected k"] obtain b where b: "r = Returns b" "batch_shape n b" by auto
  from Cons.IH [of rng1] Cons.prems obtain bs rng' where
    "list_all2 (row_group_written n injected) ks bs"
    "\<forall>ks'. write_row_groups n injected (ks @ ks') rng1 =
        (case write_row_groups n injected ks' rng' of (bs', r) \<Rightarrow> (bs @ bs', r))" by auto
  with r b b0 show ?case
    by (intro exI [of _ "b # bs"] exI [of _ rng']) (auto simp: planted_def split: prod.split)
qed

lemma write_row_groups_ok:
  assumes "\<forall>k \<in> set ks. list_all (injectable n) (injected k)"
  shows "\<exists>bs. write_row_groups n injected ks rng = (bs, Returns ())
    \<and> list_all2 (row_group_written n injected) ks bs"
proof -
  from write_row_groups_append [OF assms, of rng] obtain bs rng' where
    "list_all2 (row_group_written n injected) ks bs"
    "write_row_groups n injected (ks @ []) rng =
       (case write_row_groups n injected [] rng' of (bs', r) \<Rightarrow> (bs @ bs', r))" by blast
  then show ?thesis by simp
qed


definition file_ready :: "nat \<Rightarrow> nat \<Rightarrow> nat \<Rightarrow> nat \<Rightarrow> nat \<Rightarrow> bool" where
  "file_ready nf nrg rgs n fi \<longleftrightarrow> (\<forall>k < rgs. list_all (injectable n) (injections nf nrg fi k))"

definition file_closed ::
  "path \<Rightarrow> nat \<Rightarrow> nat \<Rightarrow> nat \<Rightarrow> nat \<Rightarrow> nat \<Rightarrow> path \<times> written_file \<Rightarrow> bool" where
  "file_closed dir nf nrg rgs n fi x \<longleftrightarrow> fst x = corpus_path dir fi
     \<and> (\<exists>bs. snd x = Closed bs \<and> list_all2 (row_group_written n (injections nf nrg fi)) [0..<rgs] bs)"

lemma write_files_append:
  "limit_ok n \<Longrightarrow> list_all (file_ready nf nrg rgs n) fis \<Longrightarrow>
   \<exists>fs. list_all2 (file_closed dir nf nrg rgs n) fis fs
     \<and> (\<forall>fis'. write_files limit_ok dir nf nrg rgs n seed (fis @ fis') =
           (case write_files limit_ok dir nf nrg rgs n seed fis' of (fs', r) \<Rightarrow> (fs @ fs', r)))"
proof (induction fis)
  case Nil
  show ?case by (intro exI [of _ "[]"]) simp
next
  case (Cons fi fis)
  have "\<forall>k \<in> set [0..<rgs]. list_all (injectable n) (injections nf nrg fi k)"
    using Cons.prems by (simp add: file_ready_def)
  from write_row_groups_ok [OF this, of "rng_new (file_seed seed fi)"] obtain bs where
    bs: "write_row_groups n (injections nf nrg fi) [0..<rgs] (rng_new (file_seed seed fi)) = (bs, Returns ())"
    "list_all2 (row_group_written n (injections nf nrg fi)) [0..<rgs] bs" by blast
  from Cons obtain fs where "list_all2 (file_closed dir nf nrg rgs n) fis fs"
    "\<forall>fis'. write_files limit_ok dir nf nrg rgs n seed (fis @ fis') =
        (case write_files limit_ok dir nf nrg rgs n seed fis' of (fs', r) \<Rightarrow> (fs @ fs', r))" by auto
  moreover from bs(2) have "file_closed dir nf nrg rgs n fi (corpus_path dir fi, Closed bs)"
    by (simp add: file_closed_def)
  ultimately show ?case using bs(1) Cons.prems(1)
    by (intro exI [of _ "(corpus_path dir fi, Closed bs) # fs"]) (auto simp: Let_def split: prod.split)
qed

lemma write_files_ok:
  assumes "limit_ok n" "list_all (file_ready nf nrg rgs n) fis"
  shows "\<exists>fs. write_files limit_ok dir nf nrg rgs n seed fis = (fs, Returns ())
    \<and> list_all2 (file_closed dir nf nrg rgs n) fis fs"
proof -
  from write_files_append [where limit_ok = limit_ok and n = n and dir = dir and seed = seed, OF assms] obtain fs where
    "list_all2 (file_closed dir nf nrg rgs n) fis fs"
    "write_files limit_ok dir nf nrg rgs n seed (fis @ []) =
       (case write_files limit_ok dir nf nrg rgs n seed [] of (fs', r) \<Rightarrow> (fs @ fs', r))" by blast
  then show ?thesis by simp
qed


section \<open>Corpora\<close>

lemma file_ready_three: "3 \<le> n \<Longrightarrow> file_ready nf nrg rgs n fi"
  by (simp add: file_ready_def injections_injectable)

lemma write_corpus_ok:
  assumes "0 < n_files" "0 < rgs" "3 \<le> rows" "limit_ok rows"
  shows "\<exists>files. write_corpus limit_ok checks dir n_files rgs rows seed = (files, Returns ())
    \<and> list_all2 (file_closed dir (n_files - 1) (rgs - 1) rgs rows) [0..<n_files] files"
proof -
  have "list_all (file_ready (n_files - 1) (rgs - 1) rgs rows) [0..<n_files]"
    using file_ready_three [OF assms(3)] by (simp add: list_all_iff)
  from write_files_ok [where limit_ok = limit_ok, OF assms(4) this, of dir seed] assms(1,2) show ?thesis
    by (simp add: write_corpus_def usize_pred_def)
qed

text \<open>The batches of a file that was closed.\<close>

definition batches_of :: "written_file \<Rightarrow> corpus_batch list" where
  "batches_of f = (case f of Closed bs \<Rightarrow> bs | Unfinished bs \<Rightarrow> bs)"

lemma write_corpus_needles:
  assumes "0 < n_files" "0 < rgs" "3 \<le> rows" "limit_ok rows"
  shows "\<exists>files. write_corpus limit_ok checks dir n_files rgs rows seed = (map (apsnd Closed) files, Returns ())
    \<and> map fst files = map (corpus_path dir) [0..<n_files]
    \<and> (\<forall>(p, bs) \<in> set files. length bs = rgs \<and> (\<forall>b \<in> set bs. batch_shape rows b))
    \<and> (\<forall>fi < n_files. src_ip (snd (files ! fi) ! 0) ! 0 = multi_ioc fi)
    \<and> src_ip (snd (files ! 0) ! 0) ! 1 = PREFIX_VALUE
    \<and> domain_rev (snd (files ! 0) ! 0) ! 0 = DOMAIN_VALUE
    \<and> src_ip (snd (files ! (n_files - 1)) ! (rgs - 1)) ! 2 = SINGLE_NEEDLE"
proof -
  from write_corpus_ok [where limit_ok = limit_ok and rows = rows, OF assms] obtain fs where
    w: "write_corpus limit_ok checks dir n_files rgs rows seed = (fs, Returns ())"
    and l: "list_all2 (file_closed dir (n_files - 1) (rgs - 1) rgs rows) [0..<n_files] fs" by blast
  define files where "files = map (apsnd batches_of) fs"
  from l have "\<forall>x \<in> set fs. \<exists>bs. snd x = Closed bs"
    by (metis (no_types, lifting) file_closed_def in_set_conv_nth list_all2_conv_all_nth)
  then have fs: "fs = map (apsnd Closed) files"
    unfolding files_def by (auto simp: batches_of_def comp_def intro!: map_idI [symmetric])
  from l have len: "length files = n_files" unfolding files_def by (auto dest: list_all2_lengthD)
  have cf: "fst (files ! fi) = corpus_path dir fi
      \<and> list_all2 (row_group_written rows (injections (n_files - 1) (rgs - 1) fi)) [0..<rgs] (snd (files ! fi))"
    if "fi < n_files" for fi
    using list_all2_nthD [OF l, of fi] that len unfolding fs file_closed_def by simp
  have batch: "row_group_written rows (injections (n_files - 1) (rgs - 1) fi) k (snd (files ! fi) ! k)"
    if "fi < n_files" "k < rgs" for fi k
    using cf [OF that(1)] list_all2_nthD [where p = k] that(2) by fastforce
  have bs: "length (snd (files ! fi)) = rgs" if "fi < n_files" for fi
    using cf [OF that] by (auto dest: list_all2_lengthD)
  have "map fst files = map (corpus_path dir) [0..<n_files]"
    by (rule nth_equalityI) (use len cf in auto)
  moreover have "\<forall>(p, bs) \<in> set files. length bs = rgs \<and> (\<forall>b \<in> set bs. batch_shape rows b)"
  proof (rule ballI)
    fix x assume "x \<in> set files"
    then obtain fi where "fi < n_files" "x = files ! fi" using len by (metis in_set_conv_nth)
    with batch bs show "case x of (p, bs) \<Rightarrow> length bs = rgs \<and> (\<forall>b \<in> set bs. batch_shape rows b)"
      by (auto simp: split_beta in_set_conv_nth)
  qed
  moreover have "\<forall>fi < n_files. src_ip (snd (files ! fi) ! 0) ! 0 = multi_ioc fi"
    using batch planted_multi assms by blast
  moreover have "src_ip (snd (files ! 0) ! 0) ! 1 = PREFIX_VALUE \<and> domain_rev (snd (files ! 0) ! 0) ! 0 = DOMAIN_VALUE"
    using batch [of 0 0] planted_first assms by blast
  moreover have "src_ip (snd (files ! (n_files - 1)) ! (rgs - 1)) ! 2 = SINGLE_NEEDLE"
    by (rule planted_single [OF batch [THEN conjunct1] assms(3)]) (use assms in simp_all)
  ultimately show ?thesis using w unfolding fs by blast
qed

lemma corpus_needle_batches:
  assumes "0 < n_files" "0 < rgs" "3 \<le> rows"
    "write_corpus limit_ok checks dir n_files rgs rows seed = (map (apsnd Closed) files, r)" "limit_ok rows"
  shows "(corpus_path dir (n_files - 1), snd (files ! (n_files - 1))) \<in> set files"
    "length (snd (files ! (n_files - 1))) = rgs" "\<forall>b \<in> set (snd (files ! (n_files - 1))). batch_shape rows b"
    "src_ip (snd (files ! (n_files - 1)) ! (rgs - 1)) ! 2 = SINGLE_NEEDLE"
proof -
  have inj: "map (apsnd Closed) xs = map (apsnd Closed) ys \<longleftrightarrow> xs = ys" for xs ys :: "(path \<times> corpus_batch list) list"
    by (rule inj_map_eq_map) (auto simp: inj_def apsnd_def)
  from write_corpus_needles [where limit_ok = limit_ok and rows = rows, OF assms(1-3,5), of checks dir seed] assms(4)
  have m: "map fst files = map (corpus_path dir) [0..<n_files]"
    "\<forall>(p, bs) \<in> set files. length bs = rgs \<and> (\<forall>b \<in> set bs. batch_shape rows b)"
    "src_ip (snd (files ! (n_files - 1)) ! (rgs - 1)) ! 2 = SINGLE_NEEDLE" by (auto simp: inj)
  have len: "length files = n_files" using arg_cong [OF m(1), of length] by simp
  with arg_cong [OF m(1), of "\<lambda>xs. xs ! (n_files - 1)"] assms(1)
  have "fst (files ! (n_files - 1)) = corpus_path dir (n_files - 1)" by simp
  moreover have "files ! (n_files - 1) \<in> set files" using len assms(1) by simp
  ultimately show "(corpus_path dir (n_files - 1), snd (files ! (n_files - 1))) \<in> set files"
    by (metis prod.collapse)
  with m(2) show "length (snd (files ! (n_files - 1))) = rgs"
    "\<forall>b \<in> set (snd (files ! (n_files - 1))). batch_shape rows b" by auto
  show "src_ip (snd (files ! (n_files - 1)) ! (rgs - 1)) ! 2 = SINGLE_NEEDLE" by (rule m(3))
qed










section \<open>From the corpus to a search\<close>

text \<open>
  What the Parquet writer and reader owe each other: a file written with one flush per batch has
  one readable row group for each, in which a column has the values it was given.
\<close>

definition stores_batches :: "(corpus_batch list \<Rightarrow> pfile) \<Rightarrow> nat \<Rightarrow> bool" where
  "stores_batches W n \<longleftrightarrow>
     (\<forall>bs. length bs < usize_bound \<and> (\<forall>b \<in> set bs. batch_shape n b) \<longrightarrow>
        good_file (W bs)
        \<and> (\<exists>rgs. contents (W bs) = Inr rgs \<and> length rgs = length bs
             \<and> (\<forall>i < length bs. \<forall>c. row_group_values c (rgs ! i) =
                  row_group_values c (Inr [Inr (record_batch_of (bs ! i))]))))"

lemma stored_src_ip:
  assumes "stores_batches W n" "length bs < usize_bound" "\<forall>b \<in> set bs. batch_shape n b"
    "i < length bs" "k < n"
  shows "(src_ip (bs ! i) ! k, i) \<in> file_pairs ''src_ip'' (W bs)" "good_file (W bs)"
proof -
  from assms(1-3) obtain rgs where rgs: "contents (W bs) = Inr rgs" "length rgs = length bs"
    "row_group_values ''src_ip'' (rgs ! i) = row_group_values ''src_ip'' (Inr [Inr (record_batch_of (bs ! i))])"
    and good: "good_file (W bs)"
    using assms(4) unfolding stores_batches_def by metis
  show "good_file (W bs)" by (rule good)
  have "k < length (src_ip (bs ! i))" using assms(3-5) by (auto simp: batch_shape_def)
  then have "src_ip (bs ! i) ! k \<in> row_group_values ''src_ip'' (rgs ! i)"
    unfolding rgs(3) by (auto simp: row_group_values_def batch_values_def record_batch_of_def)
  with rgs(1,2) assms(4) show "(src_ip (bs ! i) ! k, i) \<in> file_pairs ''src_ip'' (W bs)"
    by (simp add: file_pairs_def)
qed

lemma digit_char_path: "d < 10 \<Longrightarrow> digit_char d \<noteq> CHR ''/'' \<and> digit_char d \<noteq> CHR ''.''"
  by (auto dest!: arg_cong [where f = byte_val]) (simp_all add: byte_val_def digit_char_def)

lemma path_file_name_append:
  "x = [] \<or> last x = CHR ''/'' \<Longrightarrow> CHR ''/'' \<notin> set s \<Longrightarrow> path_file_name (x @ s) = s"
proof -
  assume x: "x = [] \<or> last x = CHR ''/''" and s: "CHR ''/'' \<notin> set s"
  have t: "takeWhile (\<lambda>c. c \<noteq> CHR ''/'') (rev s) = rev s" using s by (auto simp: takeWhile_eq_all_conv)
  show ?thesis using x s by (cases x rule: rev_cases) (auto simp: path_file_name_def t takeWhile_append)
qed

lemma name_extension_append:
  "s \<noteq> [] \<Longrightarrow> CHR ''.'' \<notin> set e \<Longrightarrow> e \<noteq> [] \<Longrightarrow> name_extension (s @ CHR ''.'' # e) = Some e"
proof -
  assume e: "s \<noteq> []" "CHR ''.'' \<notin> set e" "e \<noteq> []"
  have "rposition (\<lambda>c. c = CHR ''.'') (s @ CHR ''.'' # e) = Some (length s)"
    by (rule rposition_last) (use e(2) in auto)
  moreover have "last (s @ CHR ''.'' # e) \<in> set e" using e(3) by simp
  then have "s @ CHR ''.'' # e \<noteq> ''..''" using e(2) by (metis last.simps list.distinct(1))
  ultimately show ?thesis using e(1) by (simp add: name_extension_def)
qed

lemma corpus_path_walked:
  assumes "dir \<noteq> []"
  shows "below_dir dir (corpus_path dir fi) \<and> is_parquet (corpus_path dir fi)"
proof -
  let ?d = "if dir = [] \<or> last dir = CHR ''/'' then dir else dir @ ''/''"
  let ?s = "''part_'' @ replicate (5 - length (show_nat fi)) CHR ''0'' @ show_nat fi"
  have "CHR ''/'' \<notin> set (show_nat fi)"
    using show_nat_byte [where P = "\<lambda>c. c \<noteq> CHR ''/''"] digit_char_path by blast
  then have ns: "CHR ''/'' \<notin> set (?s @ ''.parquet'')" by auto
  have p: "corpus_path dir fi = ?d @ ?s @ ''.parquet''" by (simp add: corpus_path_def)
  have d: "?d = [] \<or> last ?d = CHR ''/''" by simp
  have name: "path_file_name (corpus_path dir fi) = ?s @ ''.parquet''"
    unfolding p by (rule path_file_name_append [OF d ns])
  have "name_extension (?s @ CHR ''.'' # ''parquet'') = Some ''parquet''"
    by (rule name_extension_append) simp_all
  then have "is_parquet (corpus_path dir fi)" unfolding is_parquet_def name .
  moreover have "below_dir dir (corpus_path dir fi)"
    unfolding p below_dir_def using assms by simp
  ultimately show ?thesis by blast
qed

text \<open>
  C33. A corpus written to disk, indexed by source address and searched for the single needle:
  the last row group of the last file is among the matches.
\<close>

theorem corpus_search_finds_needle:
  assumes "fst_ok L" "stores_batches W rows" "dir \<noteq> []"
    "0 < n_files" "0 < rgs" "rgs < usize_bound" "3 \<le> rows"
    "write_corpus limit_ok checks dir n_files rgs rows seed = (map (apsnd Closed) files, Returns ())"
    "\<forall>(p, bs) \<in> set files. map_of (data w) p = Some (W bs)"
    "files_ok w dir" "indexes w root = None" "limit_ok rows"
  shows "\<exists>w' ms e' m. build_index L root w dir ''src_ip'' = (Inr (), w')
    \<and> exact_search L w' (engine_new w' root) ''src_ip'' SINGLE_NEEDLE = (Inr ms, e')
    \<and> m \<in> set ms \<and> file_path m = corpus_path dir (n_files - 1) \<and> rgs - 1 \<in> set (row_groups m)"
proof -
  let ?p = "corpus_path dir (n_files - 1)" and ?bs = "snd (files ! (n_files - 1))"
  from corpus_needle_batches [where limit_ok = limit_ok and rows = rows, OF assms(4,5,7,8,12)] have bs: "(?p, ?bs) \<in> set files" "length ?bs = rgs"
    "\<forall>b \<in> set ?bs. batch_shape rows b" "src_ip (?bs ! (rgs - 1)) ! 2 = SINGLE_NEEDLE" by auto
  with assms(9) have f: "map_of (data w) ?p = Some (W ?bs)" by auto
  have pair: "(SINGLE_NEEDLE, rgs - 1) \<in> file_pairs ''src_ip'' (W ?bs)" and good: "good_file (W ?bs)"
    using stored_src_ip [OF assms(2), of ?bs "rgs - 1" 2] bs assms(5-7) by auto
  have walk: "?p \<in> set (walk_parquet w dir)"
    using corpus_path_walked [OF assms(3)] map_of_SomeD [OF f] by (force simp: walk_parquet_def)
  have hist: "index_history L dir root ''src_ip'' (current_versions w) w"
    by (rule index_history.start [OF assms(10,11)])
  have st: "stat_determines (current_versions w)" by (auto simp: stat_determines_def current_versions_def)
  from history_built [OF assms(1) hist st] obtain w' where w': "build_index L root w dir ''src_ip'' = (Inr (), w')"
    "data w' = data w"
    "all_current L (current_versions w) (set (walk_parquet w dir)) w' root ''src_ip''" by metis
  have op: "opened_on L w' root (engine_new w' root)" by simp
  from exact_search_current [OF w'(3) op, of SINGLE_NEEDLE] obtain ms e' where
    ms: "exact_search L w' (engine_new w' root) ''src_ip'' SINGLE_NEEDLE = (Inr ms, e')"
    "answers w (set (walk_parquet w dir)) ''src_ip'' (exact_hit SINGLE_NEEDLE) ms"
    unfolding answers_data [OF w'(2)] by blast
  let ?rgs = "hit_row_groups (exact_hit SINGLE_NEEDLE) (file_pairs ''src_ip'' (W ?bs))"
  have hit: "rgs - 1 \<in> set ?rgs"
    unfolding set_hit_row_groups [OF file_pairs_bound [OF good]] using pair by (auto simp: exact_hit_def)
  then have "\<lparr>file_path = ?p, row_groups = ?rgs\<rparr> \<in> set ms"
    using ms(2) f walk unfolding answers_def by (cases ?rgs) auto
  with w'(1) ms(1) hit show ?thesis by force
qed


text \<open>A writer whose files are read back in one batch per row group.\<close>

definition plain_store :: "corpus_batch list \<Rightarrow> pfile" where
  "plain_store bs =
     \<lparr>mtime_ns = 0, fsize = 1, contents = Inr (map (\<lambda>b. Inr [Inr (record_batch_of b)]) bs)\<rparr>"

lemma plain_store_ok: "stores_batches plain_store n"
  by (simp add: stores_batches_def plain_store_def good_file_def list_all_iff usize_bound_def)

theorem corpus_search_finds_needle_witness:
  "\<exists>(w :: string list world) w' ms e' m. build_index list_fst ''pdq-index'' w ''c'' ''src_ip'' = (Inr (), w')
    \<and> exact_search list_fst w' (engine_new w' ''pdq-index'') ''src_ip'' SINGLE_NEEDLE = (Inr ms, e')
    \<and> m \<in> set ms \<and> file_path m = ''c/part_00000.parquet'' \<and> 1 \<in> set (row_groups m)"
proof -
  have "\<exists>files. write_corpus (\<lambda>n. 0 < n) True ''c'' 1 2 3 42 = (map (apsnd Closed) files, Returns ())
      \<and> map fst files = [corpus_path ''c'' 0] \<and> (\<forall>(p, bs) \<in> set files. length bs = 2 \<and> (\<forall>b \<in> set bs. batch_shape 3 b))"
    using write_corpus_needles [of 1 2 3 "\<lambda>n. 0 < n" True "''c''" 42] by auto
  then obtain bs where bs: "write_corpus (\<lambda>n. 0 < n) True ''c'' 1 2 3 42 =
      (map (apsnd Closed) [(corpus_path ''c'' 0, bs)], Returns ())"
    "length bs = 2" "\<forall>b \<in> set bs. batch_shape 3 b" by (auto simp: map_eq_Cons_conv)
  have cp: "corpus_path ''c'' 0 = ''c/part_00000.parquet''" by code_simp
  let ?w = "\<lparr>data = [(corpus_path ''c'' 0, plain_store bs)], indexes = (\<lambda>_. None)\<rparr> :: string list world"
  have "good_file (plain_store bs)" using plain_store_ok [of 3] bs(2,3) unfolding stores_batches_def by (simp add: usize_bound_def)
  moreover have "path_ok ''c/part_00000.parquet''" by code_simp
  ultimately have ok: "files_ok ?w ''c''" by (auto simp: files_ok_def walk_parquet_def cp)
  have "2 < usize_bound" by (simp add: usize_bound_def)
  from corpus_search_finds_needle [OF list_fst_ok plain_store_ok _ _ _ this _ bs(1) _ ok, of "''pdq-index''"]
  have "\<exists>w' ms e' m. build_index list_fst ''pdq-index'' ?w ''c'' ''src_ip'' = (Inr (), w')
    \<and> exact_search list_fst w' (engine_new w' ''pdq-index'') ''src_ip'' SINGLE_NEEDLE = (Inr ms, e')
    \<and> m \<in> set ms \<and> file_path m = ''c/part_00000.parquet'' \<and> 1 \<in> set (row_groups m)"
    by (simp add: cp)
  then show ?thesis by blast
qed

section \<open>The filler\<close>

text \<open>Computations that never bring the generator to its fixed point zero.\<close>

definition keeps_nonzero :: "(rng, 'a) state \<Rightarrow> bool" where
  "keeps_nonzero m \<longleftrightarrow> (\<forall>s. s \<noteq> 0 \<longrightarrow> snd (run_state m s) \<noteq> 0)"

lemma keeps_nonzero_return [intro!]: "keeps_nonzero (State_Monad.return x)"
  by (simp add: keeps_nonzero_def)

lemma keeps_nonzero_bind [intro!]:
  "keeps_nonzero m \<Longrightarrow> (\<And>x. keeps_nonzero (f x)) \<Longrightarrow> keeps_nonzero (m \<bind> f)"
  by (auto simp: keeps_nonzero_def split_beta)

lemma keeps_nonzero_traverse [intro!]:
  "(\<And>x. keeps_nonzero (f x)) \<Longrightarrow> keeps_nonzero (traverse_list f xs)"
  by (induction xs) auto

lemma keeps_nonzero_below [intro!]: "keeps_nonzero (below n)"
  by (simp add: keeps_nonzero_def below_def next_u64_def xorshift_nonzero)

theorem generator_never_stuck:
  "snd (run_state (build_batch n injected) (rng_new seed)) \<noteq> 0
   \<and> (s \<noteq> 0 \<longrightarrow> snd (run_state (build_batch n injected) s) \<noteq> 0)"
proof -
  have "keeps_nonzero (build_batch n injected)"
    unfolding build_batch_def filler_def rand_ip_def rand_domain_def by auto
  moreover have "rng_new seed \<noteq> 0"
    by (cases "seed = 0") (simp_all add: rng_new_def max_def)
  ultimately show ?thesis by (simp add: keeps_nonzero_def)
qed

theorem generator_never_stuck_witness:
  "snd (run_state (build_batch 3 []) (rng_new 0)) \<noteq> 0 \<and> snd (run_state (build_batch 3 []) 7) \<noteq> 0"
  using generator_never_stuck [of 3 "[]" 0 7] by simp

lemma unat_below: "0 < n \<Longrightarrow> unat (fst (run_state (below n) s)) < unat n"
  by (simp add: below_def next_u64_def unat_mod_distrib) (simp add: unat_gt_0 word_neq_0_conv)

theorem rand_ip_octets:
  "\<exists>a b c d. fst (run_state rand_ip s) =
       show_nat a @ ''.'' @ show_nat b @ ''.'' @ show_nat c @ ''.'' @ show_nat d
     \<and> 1 \<le> a \<and> a \<le> 255 \<and> b \<le> 255 \<and> c \<le> 255 \<and> 1 \<le> d \<and> d \<le> 255"
proof -
  have one: "1 \<le> unat (1 + x) \<and> unat (1 + x) \<le> 255" if "unat x < 255" for x :: u64
    using that by (simp add: unat_word_ariths)
  obtain a s1 where a: "run_state (below 255) s = (a, s1)" by fastforce
  obtain b s2 where b: "run_state (below 256) s1 = (b, s2)" by fastforce
  obtain c s3 where c: "run_state (below 256) s2 = (c, s3)" by fastforce
  obtain d s4 where d: "run_state (below 255) s3 = (d, s4)" by fastforce
  have "fst (run_state rand_ip s) = show_nat (unat (1 + a)) @ ''.'' @ show_nat (unat b) @ ''.'' @
      show_nat (unat c) @ ''.'' @ show_nat (unat (1 + d))"
    by (simp add: rand_ip_def a b c d show_u64_def)
  moreover have "unat a < 255" "unat b < 256" "unat c < 256" "unat d < 255"
    using unat_below [of 255 s] unat_below [of 256 s1] unat_below [of 256 s2] unat_below [of 255 s3]
    by (simp_all add: a b c d)
  ultimately show ?thesis using one [of a] one [of d]
    by (intro exI [of _ "unat (1 + a)"] exI [of _ "unat b"] exI [of _ "unat c"] exI [of _ "unat (1 + d)"]) simp
qed

section \<open>Domains\<close>

lemma split_char_nonempty [simp]: "split_char sep s \<noteq> []"
  by (cases s) (auto split: list.split)

lemma split_char_parts: "l \<in> set (split_char sep s) \<Longrightarrow> sep \<notin> set l"
proof (induction s arbitrary: l)
  case (Cons c s)
  then show ?case by (cases "split_char sep s") (auto split: if_splits)
qed simp

lemma split_char_append: "sep \<notin> set l \<Longrightarrow> split_char sep (l @ sep # s) = l # split_char sep s"
  by (induction l) auto

lemma split_char_no_sep: "sep \<notin> set l \<Longrightarrow> split_char sep l = [l]"
  by (induction l) auto

lemma join_split: "join_strings [sep] (split_char sep s) = s"
proof (induction s)
  case (Cons c s)
  then show ?case by (cases "split_char sep s"; cases "tl (split_char sep s)") auto
qed simp

lemma split_join:
  "ls \<noteq> [] \<Longrightarrow> \<forall>l \<in> set ls. sep \<notin> set l \<Longrightarrow> split_char sep (join_strings [sep] ls) = ls"
proof (induction "[sep]" ls rule: join_strings.induct)
  case (3 l v va)
  then show ?case by (simp add: split_char_append)
qed (simp_all add: split_char_no_sep)

theorem reverse_domain_involution:
  "reverse_domain (reverse_domain d) = d \<and> reverse_domain ''www.evil.com'' = DOMAIN_VALUE"
proof -
  have "split_char CHR ''.'' (join_strings ''.'' (rev (split_char CHR ''.'' d))) = rev (split_char CHR ''.'' d)"
    by (rule split_join) (auto dest: split_char_parts)
  then have "reverse_domain (reverse_domain d) = d"
    unfolding reverse_domain_def by (simp add: join_split)
  moreover have "reverse_domain ''www.evil.com'' = DOMAIN_VALUE" by code_simp
  ultimately show ?thesis ..
qed

end
