(* ===== verification/Bloom_Probe.thy ===== *)
theory Bloom_Probe
  imports World
begin

text \<open>
  The bloom filter probe of the benchmarks (\<open>src/bloom_probe.rs\<close>): the reader that counts the
  bytes it hands out, \<open>probe_bloom\<close>, \<open>probe_blooms_multi\<close> and \<open>fst_index_bytes\<close>.

  The Parquet reader is the parameter \<open>bloom_lib\<close>: opening a file and a row group give, beside
  their results, the reads they make through the \<open>ChunkReader\<close>.  The byte counter has 64 bits and
  wraps around.
\<close>

section \<open>The counting reader\<close>

text \<open>
  \<open>get_bytes(start, length)\<close> counts the length it is asked for; the reader \<open>get_read(start)\<close>
  gives counts what each of its calls of \<open>read\<close> returns.
\<close>

datatype io_event = GetBytes nat nat | GetRead nat "nat list"

fun count_event :: "io_event \<Rightarrow> u64 \<Rightarrow> u64" where
  "count_event (GetBytes start len) n = n + of_nat len"
| "count_event (GetRead start reads) n = foldl (\<lambda>n k. n + of_nat k) n reads"

definition count_events :: "io_event list \<Rightarrow> u64 \<Rightarrow> u64" where
  "count_events evs n = fold count_event evs n"

record ('h, 'g, 'b) bloom_lib =
  new_reader :: "pfile \<Rightarrow> io_event list \<times> (pdq_error + 'h)"
  column_names :: "'h \<Rightarrow> string list"
  reader_row_groups :: "'h \<Rightarrow> nat"
  get_row_group :: "'h \<Rightarrow> nat \<Rightarrow> io_event list \<times> (pdq_error + 'g)"
  get_column_bloom_filter :: "'g \<Rightarrow> nat \<Rightarrow> 'b option"
  check :: "'b \<Rightarrow> string \<Rightarrow> bool"

section \<open>Probing\<close>

text \<open>What both probes do first: open the file and find the column.\<close>

definition open_column ::
  "('h, 'g, 'b) bloom_lib \<Rightarrow> 'f world \<Rightarrow> path \<Rightarrow> column \<Rightarrow> (pdq_error + 'h \<times> nat) \<times> u64" where
  "open_column B w p column =
     (case map_of (data w) p of
        None \<Rightarrow> (Inl IoError, 0)
      | Some f \<Rightarrow>
          (case new_reader B f of
             (evs, Inl e) \<Rightarrow> (Inl e, count_events evs 0)
           | (evs, Inr h) \<Rightarrow>
               (case position (\<lambda>c. c = column) (column_names B h) of
                  None \<Rightarrow> (Inl (Missing (''column '' @ column @ '' not found'')), count_events evs 0)
                | Some col_idx \<Rightarrow> (Inr (h, col_idx), count_events evs 0))))"

fun probe_row_groups ::
  "('h, 'g, 'b) bloom_lib \<Rightarrow> 'h \<Rightarrow> nat \<Rightarrow> string \<Rightarrow> nat list \<Rightarrow> nat list \<Rightarrow> u64
   \<Rightarrow> (pdq_error + nat list) \<times> u64" where
  "probe_row_groups B h col_idx v [] matched n = (Inr matched, n)"
| "probe_row_groups B h col_idx v (rg # rgs) matched n =
     (case get_row_group B h rg of
        (evs, Inl e) \<Rightarrow> (Inl e, count_events evs n)
      | (evs, Inr g) \<Rightarrow>
          probe_row_groups B h col_idx v rgs
            (case get_column_bloom_filter B g col_idx of
               Some sbbf \<Rightarrow> if check B sbbf v then matched @ [rg] else matched
             | None \<Rightarrow> matched)
            (count_events evs n))"

definition probe_bloom ::
  "('h, 'g, 'b) bloom_lib \<Rightarrow> 'f world \<Rightarrow> path \<Rightarrow> column \<Rightarrow> string \<Rightarrow> pdq_error + nat list \<times> u64" where
  "probe_bloom B w p column v =
     (case open_column B w p column of
        (Inl e, _) \<Rightarrow> Inl e
      | (Inr (h, col_idx), n) \<Rightarrow>
          (case probe_row_groups B h col_idx v [0..<reader_row_groups B h] [] n of
             (Inl e, _) \<Rightarrow> Inl e
           | (Inr matched, n') \<Rightarrow> Inr (matched, n')))"

text \<open>The row group loop of the watchlist; \<open>hit\<close> has one flag per value.\<close>

fun multi_row_groups ::
  "('h, 'g, 'b) bloom_lib \<Rightarrow> 'h \<Rightarrow> nat \<Rightarrow> string list \<Rightarrow> nat list \<Rightarrow> bool list \<Rightarrow> u64
   \<Rightarrow> (pdq_error + bool list) \<times> u64" where
  "multi_row_groups B h col_idx values [] hit n = (Inr hit, n)"
| "multi_row_groups B h col_idx values (rg # rgs) hit n =
     (case get_row_group B h rg of
        (evs, Inl e) \<Rightarrow> (Inl e, count_events evs n)
      | (evs, Inr g) \<Rightarrow>
          multi_row_groups B h col_idx values rgs
            (case get_column_bloom_filter B g col_idx of
               Some sbbf \<Rightarrow> map2 (\<lambda>found v. if \<not> found \<and> check B sbbf v then True else found) hit values
             | None \<Rightarrow> hit)
            (count_events evs n))"

definition probe_blooms_multi ::
  "('h, 'g, 'b) bloom_lib \<Rightarrow> 'f world \<Rightarrow> path \<Rightarrow> column \<Rightarrow> string list \<Rightarrow> pdq_error + nat \<times> u64" where
  "probe_blooms_multi B w p column values =
     (case open_column B w p column of
        (Inl e, _) \<Rightarrow> Inl e
      | (Inr (h, col_idx), n) \<Rightarrow>
          (case multi_row_groups B h col_idx values [0..<reader_row_groups B h]
                  (replicate (length values) False) n of
             (Inl e, _) \<Rightarrow> Inl e
           | (Inr hit, n') \<Rightarrow> Inr (length (filter id hit), n')))"

section \<open>The footprint of the index\<close>

text \<open>
  Every entry below the index directory (and that directory itself) counts when its name is the
  column's: \<open>len_fst\<close> is the size of an FST file, \<open>len_other\<close> that of any other entry.  The sum is
  that of file sizes on one disk, so it stays below \<open>2 ^ 64\<close>.
\<close>

definition entry_bytes ::
  "('f fst_file \<Rightarrow> nat) \<Rightarrow> (string \<Rightarrow> nat) \<Rightarrow> string \<Rightarrow> string \<times> 'f entry \<Rightarrow> nat" where
  "entry_bytes len_fst len_other target x =
     (case x of (name, entry) \<Rightarrow>
        (if name = target then len_other name else 0) +
        (case entry of
           OtherEntry \<Rightarrow> 0
         | IdxDir d \<Rightarrow>
             sum_list (map (\<lambda>(name, content). if name = target then len_fst content else 0) (fsts d))))"

definition fst_index_bytes ::
  "('f fst_file \<Rightarrow> nat) \<Rightarrow> (string \<Rightarrow> nat) \<Rightarrow> 'f world \<Rightarrow> path \<Rightarrow> column \<Rightarrow> nat" where
  "fst_index_bytes len_fst len_other w index_dir column =
     (case indexes w index_dir of
        None \<Rightarrow> 0
      | Some t \<Rightarrow>
          (if path_file_name index_dir = fst_name column then len_other index_dir else 0) +
          sum_list (map (entry_bytes len_fst len_other (fst_name column)) t))"

end
