(* ===== verification/Bloom_Properties.thy ===== *)
theory Bloom_Properties
  imports Index_Query Bloom_Probe
begin

text \<open>
  What the bloom filter probe guarantees: the watchlist probe counts the values whose single probe
  finds a row group and reads as many bytes as one such probe, the candidates include the row
  groups the index reports, and row groups without a filter are left out.
\<close>

section \<open>Probes as one pass over the filters\<close>

text \<open>The filters of the row groups in order, read once: what both probes do apart from checking.\<close>

fun load_blooms ::
  "('h, 'g, 'b) bloom_lib \<Rightarrow> 'h \<Rightarrow> nat \<Rightarrow> nat list \<Rightarrow> u64 \<Rightarrow> (pdq_error + (nat \<times> 'b) list) \<times> u64" where
  "load_blooms B h col_idx [] n = (Inr [], n)"
| "load_blooms B h col_idx (rg # rgs) n =
     (case get_row_group B h rg of
        (evs, Inl e) \<Rightarrow> (Inl e, count_events evs n)
      | (evs, Inr g) \<Rightarrow>
          (case load_blooms B h col_idx rgs (count_events evs n) of
             (Inl e, n') \<Rightarrow> (Inl e, n')
           | (Inr bs, n') \<Rightarrow>
               (Inr (case get_column_bloom_filter B g col_idx of None \<Rightarrow> bs | Some b \<Rightarrow> (rg, b) # bs), n')))"

definition hits_of :: "('h, 'g, 'b) bloom_lib \<Rightarrow> string \<Rightarrow> (nat \<times> 'b) list \<Rightarrow> nat list" where
  "hits_of B v bs = map fst (filter (\<lambda>(rg, b). check B b v) bs)"

lemma hits_of_simps [simp]:
  "hits_of B v [] = []"
  "hits_of B v ((rg, b) # bs) = (if check B b v then rg # hits_of B v bs else hits_of B v bs)"
  by (simp_all add: hits_of_def)

lemma probe_row_groups_load:
  "probe_row_groups B h col_idx v rgs matched n =
     (case load_blooms B h col_idx rgs n of
        (Inl e, n') \<Rightarrow> (Inl e, n')
      | (Inr bs, n') \<Rightarrow> (Inr (matched @ hits_of B v bs), n'))"
  by (induction rgs arbitrary: matched n) (auto split: prod.split sum.split option.split)

lemma multi_row_groups_load:
  "length hit = length values \<Longrightarrow>
   multi_row_groups B h col_idx values rgs hit n =
     (case load_blooms B h col_idx rgs n of
        (Inl e, n') \<Rightarrow> (Inl e, n')
      | (Inr bs, n') \<Rightarrow> (Inr (map2 (\<lambda>found v. found \<or> hits_of B v bs \<noteq> []) hit values), n'))"
proof (induction rgs arbitrary: hit n)
  case Nil
  then show ?case by (auto simp: list_eq_iff_nth_eq)
next
  case (Cons rg rgs)
  have m: "map2 (\<lambda>found v. if \<not> found \<and> check B b v then True else found) hit values =
      map2 (\<lambda>found v. found \<or> check B b v) hit values" for b
    by (rule map_cong) auto
  have two: "map2 (\<lambda>found v. found \<or> hits_of B v bs \<noteq> []) (map2 (\<lambda>found v. found \<or> check B b v) hit values) values
      = map2 (\<lambda>found v. found \<or> hits_of B v ((rg, b) # bs) \<noteq> []) hit values" for b bs
    using Cons.prems by (induction hit "values" rule: list_induct2) auto
  obtain evs r where r: "get_row_group B h rg = (evs, r)" by fastforce
  show ?case
  proof (cases r)
    case (Inl e)
    with r show ?thesis by simp
  next
    case (Inr g)
    show ?thesis
    proof (cases "get_column_bloom_filter B g col_idx")
      case None
      with r Inr Cons.IH [OF Cons.prems] show ?thesis by (simp split: prod.split sum.split)
    next
      case (Some b)
      have "length (map2 (\<lambda>found v. found \<or> check B b v) hit values) = length values"
        using Cons.prems by simp
      note IH = Cons.IH [OF this, of "count_events evs n"]
      obtain bl n' where bl: "load_blooms B h col_idx rgs (count_events evs n) = (bl, n')" by fastforce
      show ?thesis
        unfolding multi_row_groups.simps(2) load_blooms.simps(2) r prod.case Inr sum.case Some option.case m IH bl
        by (cases bl) (simp_all only: two sum.case prod.case option.case)
    qed
  qed
qed

lemma probe_bloom_load:
  "probe_bloom B w p column v =
     (case open_column B w p column of
        (Inl e, _) \<Rightarrow> Inl e
      | (Inr (h, col_idx), n) \<Rightarrow>
          (case load_blooms B h col_idx [0..<reader_row_groups B h] n of
             (Inl e, _) \<Rightarrow> Inl e
           | (Inr bs, n') \<Rightarrow> Inr (hits_of B v bs, n')))"
  unfolding probe_bloom_def probe_row_groups_load by (auto split: prod.split sum.split)

lemma probe_blooms_multi_load:
  "probe_blooms_multi B w p column values =
     (case open_column B w p column of
        (Inl e, _) \<Rightarrow> Inl e
      | (Inr (h, col_idx), n) \<Rightarrow>
          (case load_blooms B h col_idx [0..<reader_row_groups B h] n of
             (Inl e, _) \<Rightarrow> Inl e
           | (Inr bs, n') \<Rightarrow> Inr (length (filter (\<lambda>v. hits_of B v bs \<noteq> []) values), n')))"
proof -
  have "length (filter id (map2 (\<lambda>found v. found \<or> hits_of B v bs \<noteq> []) (replicate (length values) False) values))
      = length (filter (\<lambda>v. hits_of B v bs \<noteq> []) values)" for bs
    by (induction "values") auto
  then show ?thesis
    unfolding probe_blooms_multi_def by (auto simp: multi_row_groups_load split: prod.split sum.split)
qed

text \<open>
  C36. The watchlist probe of bloom filters fails exactly when a single probe of the file fails;
  else it reads as many bytes as any single probe and counts the values whose single probe finds
  a row group.
\<close>

theorem multi_probe_counts_single_probes:
  "(\<forall>e. probe_blooms_multi B w p column values = Inl e \<longleftrightarrow> probe_bloom B w p column v = Inl e)
   \<and> (\<forall>hits n. probe_blooms_multi B w p column values = Inr (hits, n) \<longleftrightarrow>
        (\<exists>matched. (\<forall>u. probe_bloom B w p column u = Inr (matched u, n))
           \<and> hits = length (filter (\<lambda>u. matched u \<noteq> []) values)))"
proof -
  consider e where "\<forall>u. probe_bloom B w p column u = Inl e" "probe_blooms_multi B w p column values = Inl e"
    | bs n where "\<forall>u. probe_bloom B w p column u = Inr (hits_of B u bs, n)"
      "probe_blooms_multi B w p column values = Inr (length (filter (\<lambda>v. hits_of B v bs \<noteq> []) values), n)"
  proof -
    assume thesis: "\<And>e. \<forall>u. probe_bloom B w p column u = Inl e \<Longrightarrow> probe_blooms_multi B w p column values = Inl e \<Longrightarrow> thesis"
      "\<And>bs n. \<forall>u. probe_bloom B w p column u = Inr (hits_of B u bs, n) \<Longrightarrow>
        probe_blooms_multi B w p column values = Inr (length (filter (\<lambda>v. hits_of B v bs \<noteq> []) values), n) \<Longrightarrow> thesis"
    obtain oc n where oc: "open_column B w p column = (oc, n)" by fastforce
    note load = probe_bloom_load [of B w p column] probe_blooms_multi_load [of B w p column "values"]
    show thesis
    proof (cases oc)
      case (Inl e)
      with thesis(1) show ?thesis by (simp add: load oc)
    next
      case (Inr hc)
      obtain h col_idx where hc: "hc = (h, col_idx)" by (cases hc)
      obtain bl n' where bl: "load_blooms B h col_idx [0..<reader_row_groups B h] n = (bl, n')" by fastforce
      show ?thesis
      proof (cases bl)
        case (Inl e)
        show ?thesis by (rule thesis(1) [of e]) (simp_all add: load oc Inr hc bl Inl)
      next
        case bs: (Inr bs)
        show ?thesis by (rule thesis(2) [of bs n']) (simp_all add: load oc Inr hc bl bs)
      qed
    qed
  qed
  then show ?thesis
  proof cases
    case 1
    then show ?thesis by auto
  next
    case (2 bs n)
    have "matched = (\<lambda>u. hits_of B u bs) \<and> n' = n" if "\<forall>u. probe_bloom B w p column u = Inr (matched u, n')" for matched n'
      using that 2(1) by auto
    with 2 show ?thesis by auto
  qed
qed

section \<open>Candidates and index matches\<close>

text \<open>
  What the writer owes the reader: the file opens, the column is found, and each row group has a
  filter for it that answers yes for each value of the row group.
\<close>

definition blooms_cover :: "('h, 'g, 'b) bloom_lib \<Rightarrow> column \<Rightarrow> pfile \<Rightarrow> bool" where
  "blooms_cover B column f \<longleftrightarrow>
     (\<exists>evs h col_idx. new_reader B f = (evs, Inr h)
        \<and> position (\<lambda>c. c = column) (column_names B h) = Some col_idx
        \<and> reader_row_groups B h = num_row_groups_of f
        \<and> (\<forall>i < num_row_groups_of f. \<exists>evs g b. get_row_group B h i = (evs, Inr g)
             \<and> get_column_bloom_filter B g col_idx = Some b
             \<and> (\<forall>v. (v, i) \<in> file_pairs column f \<longrightarrow> check B b v)))"

lemma load_blooms_cover:
  assumes "\<forall>i \<in> set rgs. \<exists>evs g b. get_row_group B h i = (evs, Inr g)
      \<and> get_column_bloom_filter B g col_idx = Some b \<and> (P i \<longrightarrow> check B b v)"
  shows "\<exists>bs n'. load_blooms B h col_idx rgs n = (Inr bs, n') \<and> (\<forall>i \<in> set rgs. P i \<longrightarrow> i \<in> set (hits_of B v bs))"
  using assms
proof (induction rgs arbitrary: n)
  case (Cons i rgs)
  then obtain evs g b where g: "get_row_group B h i = (evs, Inr g)"
    "get_column_bloom_filter B g col_idx = Some b" "P i \<longrightarrow> check B b v" by auto
  from Cons.IH [of "count_events evs n"] Cons.prems obtain bs n' where
    "load_blooms B h col_idx rgs (count_events evs n) = (Inr bs, n')"
    "\<forall>i \<in> set rgs. P i \<longrightarrow> i \<in> set (hits_of B v bs)" by auto
  with g show ?case by auto
qed simp

lemma probe_bloom_covers:
  assumes "map_of (data w) p = Some f" "blooms_cover B column f"
  shows "\<exists>rgs n. probe_bloom B w p column v = Inr (rgs, n)
    \<and> (\<forall>i < num_row_groups_of f. (v, i) \<in> file_pairs column f \<longrightarrow> i \<in> set rgs)"
proof -
  from assms(2) obtain evs h col_idx where h: "new_reader B f = (evs, Inr h)"
    "position (\<lambda>c. c = column) (column_names B h) = Some col_idx" "reader_row_groups B h = num_row_groups_of f"
    and g: "\<forall>i < num_row_groups_of f. \<exists>evs g b. get_row_group B h i = (evs, Inr g)
      \<and> get_column_bloom_filter B g col_idx = Some b \<and> (\<forall>v. (v, i) \<in> file_pairs column f \<longrightarrow> check B b v)"
    unfolding blooms_cover_def by blast
  have "\<forall>i \<in> set [0..<num_row_groups_of f]. \<exists>evs g b. get_row_group B h i = (evs, Inr g)
      \<and> get_column_bloom_filter B g col_idx = Some b \<and> ((v, i) \<in> file_pairs column f \<longrightarrow> check B b v)"
    using g by fastforce
  from load_blooms_cover [OF this, of "count_events evs 0"] show ?thesis
    unfolding probe_bloom_load open_column_def by (auto simp: assms(1) h)
qed

text \<open>
  C37. Where bloom filters have no false negatives, the row groups an exact search of the index
  reports for a file are among the candidates the bloom probe of the file gives.
\<close>

theorem bloom_candidates_include_index_matches:
  assumes "fst_ok L" "index_history L dir root column H w" "stat_determines H" "plain_files w dir column"
    "\<forall>p \<in> set (walk_parquet w dir). \<forall>f. map_of (data w) p = Some f \<longrightarrow> blooms_cover B column f"
  shows "\<exists>w' ms e'. build_index L root w dir column = (Inr (), w')
    \<and> exact_search L w' (engine_new w' root) column v = (Inr ms, e')
    \<and> (\<forall>m \<in> set ms. \<exists>rgs n. probe_bloom B w' (file_path m) column v = Inr (rgs, n)
         \<and> set (row_groups m) \<subseteq> set rgs)"
proof -
  from history_built [OF assms(1-3)] obtain w' where w': "build_index L root w dir column = (Inr (), w')"
    "data w' = data w" "all_current L H (set (walk_parquet w dir)) w' root column" by metis
  from exact_search_current [OF w'(3) opened_on_new, of v] obtain ms e' where
    ms: "exact_search L w' (engine_new w' root) column v = (Inr ms, e')"
    "answers w (set (walk_parquet w dir)) column (exact_hit v) ms"
    unfolding answers_data [OF w'(2)] by blast
  have "\<exists>rgs n. probe_bloom B w' (file_path m) column v = Inr (rgs, n) \<and> set (row_groups m) \<subseteq> set rgs"
    if "m \<in> set ms" for m
  proof -
    from ms(2) that obtain f where f: "file_path m \<in> set (walk_parquet w dir)"
      "map_of (data w) (file_path m) = Some f" "row_groups m = hit_row_groups (exact_hit v) (file_pairs column f)"
      unfolding answers_def by blast
    from current_entry [OF w'(3) f(1)] f(2) w'(2) have good: "good_file f" by auto
    have "plain_values column f" using assms(4) f(1,2) by (simp add: plain_files_def)
    then have rgs: "set (row_groups m) \<subseteq> {i. i < num_row_groups_of f \<and> (v, i) \<in> file_pairs column f}"
      unfolding f(3) set_hit_row_groups [OF file_pairs_bound [OF good]]
      by (auto simp: plain_values_def exact_hit_no_NUL exact_hit_def prefix_def file_pairs_def
          num_row_groups_of_def split: sum.splits)
    from probe_bloom_covers [of w' "file_path m" f B column v] f(1,2) w'(2) assms(5) rgs show ?thesis by fastforce
  qed
  with w'(1) ms(1) show ?thesis by blast
qed


text \<open>Filters without false positives.\<close>

definition exact_blooms :: "(pfile, nat, string set) bloom_lib" where
  "exact_blooms =
     \<lparr>new_reader = (\<lambda>f. ([GetRead 4 [8], GetBytes 12 100], Inr f)), column_names = (\<lambda>_. [''n'', ''ip'']),
      reader_row_groups = num_row_groups_of, get_row_group = (\<lambda>f i. ([GetBytes 0 32], Inr i)),
      get_column_bloom_filter = (\<lambda>i c. Some {v. (v, i) \<in> file_pairs ''ip'' ex_file}),
      check = (\<lambda>b v. v \<in> b)\<rparr>"

lemma exact_blooms_cover: "blooms_cover exact_blooms ''ip'' ex_file"
  by (auto simp: blooms_cover_def exact_blooms_def)

theorem bloom_candidates_include_index_matches_witness:
  "\<exists>w' ms e'. build_index list_fst ''pdq-index'' ex_world ''d'' ''ip'' = (Inr (), w')
    \<and> exact_search list_fst w' (engine_new w' ''pdq-index'') ''ip'' ''1.2'' = (Inr ms, e')
    \<and> (\<forall>m \<in> set ms. \<exists>rgs n. probe_bloom exact_blooms w' (file_path m) ''ip'' ''1.2'' = Inr (rgs, n)
         \<and> set (row_groups m) \<subseteq> set rgs)"
  by (rule bloom_candidates_include_index_matches [OF list_fst_ok ex_history ex_stat])
     (auto simp: plain_files_def ex_data plain_values_def ex_file_pairs exact_blooms_cover split: if_splits)

text \<open>A row group without a filter is left out, although nothing is known of it.\<close>

theorem row_group_without_filter_is_left_out:
  assumes "probe_bloom B w p column v = Inr (rgs, n)" "map_of (data w) p = Some f"
    "new_reader B f = (evs, Inr h)" "position (\<lambda>c. c = column) (column_names B h) = Some col_idx"
    "get_row_group B h i = (evs', Inr g)" "get_column_bloom_filter B g col_idx = None"
  shows "i \<notin> set rgs"
proof -
  have "i \<notin> set (hits_of B v bs)" if "load_blooms B h col_idx is m = (Inr bs, m')" for "is" m bs m'
    using that
  proof (induction "is" arbitrary: m bs)
    case (Cons j "is")
    then show ?case using assms(5,6) by (fastforce split: prod.splits sum.splits option.splits if_splits)
  qed (simp add: hits_of_def)
  with assms(1-4) show ?thesis
    unfolding probe_bloom_load open_column_def by (auto split: prod.splits sum.splits)
qed

theorem row_group_without_filter_is_left_out_witness:
  "(1 :: nat) \<notin> set (fst (projr (probe_bloom (exact_blooms\<lparr>get_column_bloom_filter := (\<lambda>i c. None)\<rparr>)
     ex_world ''d/a.parquet'' ''ip'' ''1.2'')))"
proof -
  let ?B = "exact_blooms\<lparr>get_column_bloom_filter := (\<lambda>i c. None)\<rparr>"
  have "\<exists>rgs n. probe_bloom ?B ex_world ''d/a.parquet'' ''ip'' ''1.2'' = Inr (rgs, n)"
    by (simp add: probe_bloom_def open_column_def exact_blooms_def ex_data num_row_groups_of_def ex_file_def
        upt_conv_Cons)
  then obtain rgs n where r: "probe_bloom ?B ex_world ''d/a.parquet'' ''ip'' ''1.2'' = Inr (rgs, n)" by blast
  have "1 \<notin> set rgs"
    by (rule row_group_without_filter_is_left_out [OF r, of ex_file])
       (simp_all add: exact_blooms_def ex_data)
  with r show ?thesis by simp
qed

end
