(* ===== verification/Session.thy ===== *)
theory Session
  imports Provider
begin

text \<open>
  What the command line tool and the Python module use of a DataFusion \<open>SessionContext\<close>: creating
  the runtime, registering the provider as a table, a table or a statement as a data frame, a
  filter on it, and collecting its batches.  All of it is a parameter.
\<close>

record ('s, 'sch, 'm, 'ctx, 'df, 'rb) df_lib =
  runtime_new :: "pdq_error + unit"
  register_table :: "string \<Rightarrow> ('s, 'sch, 'm) provider \<Rightarrow> pdq_error + 'ctx"
  ctx_table :: "'ctx \<Rightarrow> string \<Rightarrow> pdq_error + 'df"
  ctx_sql :: "'ctx \<Rightarrow> string \<Rightarrow> pdq_error + 'df"
  filter_eq :: "'df \<Rightarrow> column \<Rightarrow> string \<Rightarrow> pdq_error + 'df"
  collect_batches :: "'df \<Rightarrow> pdq_error + 'rb list"

end
