(* ===== verification/Py_Module.thy ===== *)
theory Py_Module
  imports Session
begin

text \<open>
  The Python module (\<open>src/py_module.rs\<close>): \<open>Indexer\<close>, \<open>Searcher\<close> with the conversion of matches to
  an Arrow batch, and \<open>QueryEngine\<close>.

  A Python exception is \<open>PyRuntimeError\<close> with its message; \<open>show\<close> prints the error it wraps.  The
  futures are run to their end: tasks neither panic nor are cancelled.
\<close>

datatype py_error = PyRuntimeError string

type_synonym 'a py_result = "py_error + 'a"

definition py_err :: "(pdq_error \<Rightarrow> string) \<Rightarrow> string \<Rightarrow> pdq_error \<Rightarrow> 'a py_result" where
  "py_err show message e = Inl (PyRuntimeError (message @ show e))"

section \<open>Indexer\<close>

text \<open>\<open>Indexer { inner }\<close> is known by its output directory.\<close>

definition py_build_index ::
  "(pdq_error \<Rightarrow> string) \<Rightarrow> ('b, 'f, 's) fst_lib \<Rightarrow> path \<Rightarrow> 'f world \<Rightarrow> path \<Rightarrow> column
   \<Rightarrow> unit py_result \<times> 'f world" where
  "py_build_index show L output_dir w data_dir column =
     (case build_index L output_dir w data_dir column of
        (Inl e, w') \<Rightarrow> (py_err show ''Index build failed: '' e, w')
      | (Inr _, w') \<Rightarrow> (Inr (), w'))"

section \<open>Searcher\<close>

record search_batch =
  file_path_column :: "string list"
  row_group_column :: "u64 list"

text \<open>\<open>RecordBatch::try_new\<close> refuses columns of different lengths.\<close>

definition search_batch_new :: "string list \<Rightarrow> u64 list \<Rightarrow> pdq_error + search_batch" where
  "search_batch_new paths groups =
     (if length paths = length groups
      then Inr \<lparr>file_path_column = paths, row_group_column = groups\<rparr> else Inl ParquetError)"

text \<open>The two nested loops, each push in turn.\<close>

fun push_row_groups :: "string \<Rightarrow> nat list \<Rightarrow> string list \<times> u64 list \<Rightarrow> string list \<times> u64 list" where
  "push_row_groups p [] cols = cols"
| "push_row_groups p (rg # rgs) (paths, groups) =
     push_row_groups p rgs (paths @ [p], groups @ [of_nat rg])"

fun push_matches :: "file_matches list \<Rightarrow> string list \<times> u64 list \<Rightarrow> string list \<times> u64 list" where
  "push_matches [] cols = cols"
| "push_matches (m # ms) cols = push_matches ms (push_row_groups (file_path m) (row_groups m) cols)"

definition matches_to_record_batch :: "file_matches list \<Rightarrow> pdq_error + search_batch" where
  "matches_to_record_batch ms =
     (case push_matches ms ([], []) of (paths, groups) \<Rightarrow> search_batch_new paths groups)"

text \<open>What each search does with its result.\<close>

definition py_search_result ::
  "(pdq_error \<Rightarrow> string) \<Rightarrow> (pdq_error + file_matches list) \<times> 's engine
   \<Rightarrow> search_batch list py_result \<times> 's engine" where
  "py_search_result show r =
     (case r of
        (Inl e, e') \<Rightarrow> (py_err show ''Search failed: '' e, e')
      | (Inr results, e') \<Rightarrow>
          (case matches_to_record_batch results of
             Inl e \<Rightarrow> (py_err show ''Arrow conversion failed: '' e, e')
           | Inr batch \<Rightarrow> (Inr [batch], e')))"

definition py_exact_search where
  "py_exact_search show L w e column term = py_search_result show (exact_search L w e column term)"

definition py_prefix_search where
  "py_prefix_search show L w e column p = py_search_result show (prefix_search L w e column p)"

definition py_range_search where
  "py_range_search show L w e column start end = py_search_result show (range_search L w e column start end)"

section \<open>QueryEngine\<close>

definition py_query_engine_new ::
  "(pdq_error \<Rightarrow> string) \<Rightarrow> 'sch schema_lib \<Rightarrow> ('s, 'sch, 'm, 'ctx, 'df, 'rb) df_lib \<Rightarrow> 'f world
   \<Rightarrow> path \<Rightarrow> path \<Rightarrow> 'ctx py_result" where
  "py_query_engine_new show C D w index_path data_path =
     (case runtime_new D of
        Inl e \<Rightarrow> py_err show ''Failed to create runtime: '' e
      | Inr _ \<Rightarrow>
          (case provider_build C w (with_data_dir data_path (with_index_dir index_path builder_default)) of
             Inl e \<Rightarrow> py_err show ''Failed to create table provider: '' e
           | Inr table_provider \<Rightarrow>
               (case register_table D ''pdq_data'' table_provider of
                  Inl e \<Rightarrow> py_err show ''Failed to register table: '' e
                | Inr ctx \<Rightarrow> Inr ctx)))"

text \<open>No batches become Python's \<open>None\<close>.\<close>

definition py_batches :: "'rb list \<Rightarrow> 'rb list option" where
  "py_batches results = (if results = [] then None else Some results)"

definition py_query ::
  "(pdq_error \<Rightarrow> string) \<Rightarrow> ('s, 'sch, 'm, 'ctx, 'df, 'rb) df_lib \<Rightarrow> 'ctx \<Rightarrow> column \<Rightarrow> string
   \<Rightarrow> 'rb list option py_result" where
  "py_query show D ctx column term =
     (case ctx_table D ctx ''pdq_data'' of
        Inl e \<Rightarrow> py_err show ''Failed to get table: '' e
      | Inr table \<Rightarrow>
          (case filter_eq D table column term of
             Inl e \<Rightarrow> py_err show ''Failed to build filter: '' e
           | Inr df \<Rightarrow>
               (case collect_batches D df of
                  Inl e \<Rightarrow> py_err show ''Query execution failed: '' e
                | Inr results \<Rightarrow> Inr (py_batches results))))"

definition py_sql_query ::
  "(pdq_error \<Rightarrow> string) \<Rightarrow> ('s, 'sch, 'm, 'ctx, 'df, 'rb) df_lib \<Rightarrow> 'ctx \<Rightarrow> string
   \<Rightarrow> 'rb list option py_result" where
  "py_sql_query show D ctx sql =
     (case ctx_sql D ctx sql of
        Inl e \<Rightarrow> py_err show ''SQL query failed: '' e
      | Inr df \<Rightarrow>
          (case collect_batches D df of
             Inl e \<Rightarrow> py_err show ''Failed to collect results: '' e
           | Inr results \<Rightarrow> Inr (py_batches results)))"

end
