(* ===== verification/Py_Properties.thy ===== *)
theory Py_Properties
  imports Index_Query Py_Module
begin

text \<open>
  What a search through the Python module returns: the Arrow batch has one row for each pair of a
  file and a row group with a hit, and no other.
\<close>

lemma push_row_groups_eq:
  "push_row_groups p rgs (ps, gs) = (ps @ replicate (length rgs) p, gs @ map of_nat rgs)"
  by (induction rgs arbitrary: ps gs) simp_all

text \<open>The rows of the batch: a path with each of its row groups.\<close>

definition match_rows :: "file_matches list \<Rightarrow> (string \<times> nat) list" where
  "match_rows ms = concat (map (\<lambda>m. map (\<lambda>rg. (file_path m, rg)) (row_groups m)) ms)"

lemma push_matches_eq:
  "push_matches ms (ps, gs) = (ps @ map fst (match_rows ms), gs @ map (of_nat \<circ> snd) (match_rows ms))"
proof (induction ms arbitrary: ps gs)
  case (Cons m ms)
  have "replicate (length (row_groups m)) (file_path m) = map (\<lambda>_. file_path m) (row_groups m)"
    by (simp add: map_replicate_const)
  then show ?case by (simp add: push_row_groups_eq Cons match_rows_def comp_def)
qed (simp add: match_rows_def)

lemma matches_to_record_batch_eq:
  "matches_to_record_batch ms =
     Inr \<lparr>file_path_column = map fst (match_rows ms), row_group_column = map (of_nat \<circ> snd) (match_rows ms)\<rparr>"
  by (simp add: matches_to_record_batch_def push_matches_eq search_batch_new_def)

lemma match_rows_distinct:
  "distinct (map file_path ms) \<Longrightarrow> \<forall>m \<in> set ms. distinct (row_groups m) \<Longrightarrow> distinct (match_rows ms)"
  by (induction ms) (auto simp: match_rows_def distinct_map inj_on_def)

lemma set_match_rows: "(p, n) \<in> set (match_rows ms) \<longleftrightarrow> (\<exists>m \<in> set ms. file_path m = p \<and> n \<in> set (row_groups m))"
  by (auto simp: match_rows_def)

text \<open>A pair is among the rows of an answer exactly when the file has a hit in the row group.\<close>

lemma answers_row:
  assumes "all_current L H S w root column" "answers w S column hit ms"
  shows "(\<exists>m \<in> set ms. file_path m = p \<and> n \<in> set (row_groups m)) \<longleftrightarrow>
    (\<exists>f v. p \<in> S \<and> map_of (data w) p = Some f \<and> (v, n) \<in> file_pairs column f \<and> hit v)"
proof
  assume "\<exists>m \<in> set ms. file_path m = p \<and> n \<in> set (row_groups m)"
  then obtain m where m: "m \<in> set ms" "file_path m = p" "n \<in> set (row_groups m)" by blast
  from answers_good_file [OF assms m(1)] obtain f where f: "map_of (data w) p = Some f" "good_file f" "p \<in> S"
    "row_groups m = hit_row_groups hit (file_pairs column f)" unfolding m(2) .
  with m(3) show "\<exists>f v. p \<in> S \<and> map_of (data w) p = Some f \<and> (v, n) \<in> file_pairs column f \<and> hit v"
    by (auto simp: set_hit_row_groups [OF file_pairs_bound [OF f(2)]])
next
  assume "\<exists>f v. p \<in> S \<and> map_of (data w) p = Some f \<and> (v, n) \<in> file_pairs column f \<and> hit v"
  then obtain f v where f: "p \<in> S" "map_of (data w) p = Some f" "(v, n) \<in> file_pairs column f" "hit v" by blast
  from current_entry [OF assms(1) f(1)] f(2) have "good_file f" by (metis option.inject)
  from set_hit_row_groups [OF file_pairs_bound [OF this], of hit] f(3,4)
  have n: "n \<in> set (hit_row_groups hit (file_pairs column f))" by auto
  then have "\<lparr>file_path = p, row_groups = hit_row_groups hit (file_pairs column f)\<rparr> \<in> set ms"
    using assms(2) f(1,2) unfolding answers_def by (cases "hit_row_groups hit (file_pairs column f)") auto
  with n show "\<exists>m \<in> set ms. file_path m = p \<and> n \<in> set (row_groups m)" by force
qed

text \<open>
  C32. After an index is built from Python, an exact search returns one Arrow batch with one row
  for each pair of a file and a row group that contains a hit, no pair twice, the row group
  numbers unchanged by the conversion to 64 bits.
\<close>

theorem py_exact_search_rows:
  fixes L :: "('b, 'f, 's) fst_lib"
  assumes "fst_ok L" "index_history L dir root column H w" "stat_determines H"
  shows "\<exists>w'. py_build_index show L root w dir column = (Inr (), w')
    \<and> (\<forall>t. \<exists>rows e'. py_exact_search show L w' (engine_new w' root) column t =
           (Inr [\<lparr>file_path_column = map fst rows, row_group_column = map (of_nat \<circ> snd) rows\<rparr>], e')
         \<and> distinct rows
         \<and> (\<forall>p n. (p, n) \<in> set rows \<longleftrightarrow> (\<exists>f v. p \<in> set (walk_parquet w dir) \<and> map_of (data w) p = Some f
              \<and> (v, n) \<in> file_pairs column f \<and> exact_hit t v))
         \<and> (\<forall>(p, n) \<in> set rows. unat (of_nat n :: u64) = n))"
proof -
  let ?S = "set (walk_parquet w dir)"
  from history_built [OF assms] obtain w' where w': "build_index L root w dir column = (Inr (), w')"
    "data w' = data w" "all_current L H ?S w' root column" by metis
  have "\<exists>rows e'. py_exact_search show L w' (engine_new w' root) column t =
           (Inr [\<lparr>file_path_column = map fst rows, row_group_column = map (of_nat \<circ> snd) rows\<rparr>], e')
         \<and> distinct rows
         \<and> (\<forall>p n. (p, n) \<in> set rows \<longleftrightarrow> (\<exists>f v. p \<in> ?S \<and> map_of (data w) p = Some f
              \<and> (v, n) \<in> file_pairs column f \<and> exact_hit t v))
         \<and> (\<forall>(p, n) \<in> set rows. unat (of_nat n :: u64) = n)" for t
  proof -
    from exact_search_current [OF w'(3) opened_on_new, of t] obtain ms and e' :: "'s engine" where
      ms: "exact_search L w' (engine_new w' root) column t = (Inr ms, e')"
      "answers w' ?S column (exact_hit t) ms" by blast
    have row: "(p, n) \<in> set (match_rows ms) \<longleftrightarrow> (\<exists>f v. p \<in> ?S \<and> map_of (data w) p = Some f
        \<and> (v, n) \<in> file_pairs column f \<and> exact_hit t v)" for p n
      unfolding set_match_rows by (rule answers_row [OF w'(3) ms(2), unfolded w'(2)])
    have "distinct (map file_path ms)"
      by (rule exact.current_search_once [OF w'(3) TrueI opened_on_new ms(1) [unfolded exact_search_def]])
    moreover have "\<forall>m \<in> set ms. distinct (row_groups m)"
      using answers_bounded [OF w'(3) ms(2)] strict_sorted_iff by blast
    ultimately have "distinct (match_rows ms)" by (rule match_rows_distinct)
    moreover have "unat (of_nat n :: u64) = n" if "(p, n) \<in> set (match_rows ms)" for p n
    proof -
      from that row obtain f v where f: "p \<in> ?S" "map_of (data w) p = Some f" "(v, n) \<in> file_pairs column f" by blast
      from current_entry [OF w'(3) f(1)] f(2) w'(2) have "good_file f" by auto
      from file_pairs_bound [OF this] f(3) have "n < usize_bound" by blast
      then show ?thesis by (simp add: usize_bound_def unat_of_nat)
    qed
    ultimately show ?thesis
      using row ms(1)
      by (intro exI [of _ "match_rows ms"] exI [of _ e'])
         (auto simp: py_exact_search_def py_search_result_def matches_to_record_batch_eq)
  qed
  with w'(1) show ?thesis by (simp add: py_build_index_def)
qed

theorem py_exact_search_rows_witness:
  "\<exists>(w' :: string list world) rows e'. py_build_index (\<lambda>_. ''error'') list_fst ''pdq-index'' ex_world ''d'' ''ip'' = (Inr (), w')
    \<and> py_exact_search (\<lambda>_. ''error'') list_fst w' (engine_new w' ''pdq-index'') ''ip'' ''1.2'' =
        (Inr [\<lparr>file_path_column = map fst rows, row_group_column = map (of_nat \<circ> snd) rows\<rparr>], e')
    \<and> distinct rows \<and> set rows = {(''d/a.parquet'', 0), (''d/a.parquet'', 1)}"
proof -
  from py_exact_search_rows [OF list_fst_ok ex_history ex_stat, of "\<lambda>_. ''error''"]
  obtain w' and rows and e' :: "string list engine" where
    w': "py_build_index (\<lambda>_. ''error'') list_fst ''pdq-index'' ex_world ''d'' ''ip'' = (Inr (), w')"
    "py_exact_search (\<lambda>_. ''error'') list_fst w' (engine_new w' ''pdq-index'') ''ip'' ''1.2'' =
        (Inr [\<lparr>file_path_column = map fst rows, row_group_column = map (of_nat \<circ> snd) rows\<rparr>], e')"
    "distinct rows"
    and rows: "\<forall>p n. (p, n) \<in> set rows \<longleftrightarrow> (\<exists>f v. p \<in> set (walk_parquet ex_world ''d'')
        \<and> map_of (data ex_world) p = Some f \<and> (v, n) \<in> file_pairs ''ip'' f \<and> exact_hit ''1.2'' v)"
    by blast
  have "(p, n) \<in> set rows \<longleftrightarrow> (p, n) \<in> {(''d/a.parquet'', 0), (''d/a.parquet'', 1)}" for p n
    unfolding rows [rule_format] by (auto simp: ex_walk ex_data ex_file_pairs exact_hit_def split: if_splits)
  then have "set rows = {(''d/a.parquet'', 0), (''d/a.parquet'', 1)}" by (auto simp: set_eq_iff)
  with w' show ?thesis by blast
qed

end
