(* ===== verification/Cli.thy ===== *)
theory Cli
  imports Session Corpus_Gen
begin

text \<open>
  The command line tool (\<open>src/bin/pdq.rs\<close>): the four subcommands with the lines they print, and the
  two batch writers.  Parsing the command line is clap's; the model starts from the subcommand with
  its arguments, defaults filled in.

  A run gives what it prints on standard output and standard error, the file it writes, how it ends
  and the state of the index roots.  \<open>elapsed\<close> stands for the printed form of the durations.  The
  progress lines \<open>build_index\<close> and \<open>prune_orphans\<close> print themselves are left out.
\<close>

datatype status = Success | Error pdq_error | Exit nat | Panicked

record cli_run =
  stdout :: "string list"
  stderr :: "string list"
  written :: "(path \<times> string) option"
  status :: status

definition cli_ok :: "string list \<Rightarrow> cli_run" where
  "cli_ok ls = \<lparr>stdout = ls, stderr = [], written = None, status = Success\<rparr>"

definition cli_error :: "string list \<Rightarrow> pdq_error \<Rightarrow> cli_run" where
  "cli_error ls e = \<lparr>stdout = ls, stderr = [], written = None, status = Error e\<rparr>"

section \<open>index\<close>

definition build_command ::
  "('b, 'f, 's) fst_lib \<Rightarrow> 'f world \<Rightarrow> string list \<Rightarrow> path \<Rightarrow> column \<Rightarrow> path \<Rightarrow> cli_run \<times> 'f world" where
  "build_command L w printed path column output =
     (let ls = printed @ [''Building index for column '' @ [CHR 0x27] @ column @ [CHR 0x27] @ '' from ''
                 @ [CHR 0x27] @ path @ [CHR 0x27] @ ''...'']
      in case build_index L output w path column of
        (Inl e, w') \<Rightarrow> (cli_error ls e, w')
      | (Inr _, w') \<Rightarrow>
          (cli_ok (ls @ [''Index built successfully in '' @ [CHR 0x27] @ output @ [CHR 0x27]]), w'))"

definition index_command ::
  "('b, 'f, 's) fst_lib \<Rightarrow> 'f world \<Rightarrow> path \<Rightarrow> column \<Rightarrow> path \<Rightarrow> bool \<Rightarrow> cli_run \<times> 'f world" where
  "index_command L w path column output prune =
     (if prune then
        (let ls = [''Pruning orphan indices in '' @ [CHR 0x27] @ output @ [CHR 0x27] @ ''...'']
         in case prune_orphans output w of
           (Inl e, w') \<Rightarrow> (cli_error ls e, w')
         | (Inr pruned, w') \<Rightarrow>
             build_command L w' (ls @ [''Successfully pruned '' @ show_nat pruned @ '' orphan indices.''])
               path column output)
      else build_command L w [] path column output)"

section \<open>search\<close>

text \<open>\<open>{:?}\<close> of a vector of numbers.\<close>

definition show_list :: "nat list \<Rightarrow> string" where
  "show_list ns = ''['' @ join_strings '', '' (map show_nat ns) @ '']''"

definition total_row_groups :: "file_matches list \<Rightarrow> nat" where
  "total_row_groups ms = sum_list (map (\<lambda>m. length (row_groups m)) ms)"

definition search_report :: "string \<Rightarrow> file_matches list \<Rightarrow> string list" where
  "search_report term ms =
     (if ms = [] then [''No results found for term: '' @ term]
      else (''Found '' @ show_nat (total_row_groups ms) @ '' matching row groups across '' @
              show_nat (length ms) @ '' files:'') #
           concat (map (\<lambda>m. [''  File: '' @ file_path m, ''    Row groups: '' @ show_list (row_groups m)]) ms))"

text \<open>The search the type asks for; no search for an unknown type.\<close>

definition dispatch_search ::
  "('b, 'f, 's) fst_lib \<Rightarrow> 'f world \<Rightarrow> 's engine \<Rightarrow> column \<Rightarrow> string \<Rightarrow> string
   \<Rightarrow> (pdq_error + file_matches list) option" where
  "dispatch_search L w e column term search_type =
     (if search_type = ''exact'' then Some (fst (exact_search L w e column term))
      else if search_type = ''prefix'' then Some (fst (prefix_search L w e column term))
      else if search_type = ''range'' then Some (fst (range_search L w e column term (term @ ''~'')))
      else None)"

definition search_command ::
  "('b, 'f, 's) fst_lib \<Rightarrow> 'f world \<Rightarrow> column \<Rightarrow> string \<Rightarrow> path \<Rightarrow> string \<Rightarrow> cli_run" where
  "search_command L w column term index_path search_type =
     (case dispatch_search L w (engine_new w index_path) column term search_type of
        None \<Rightarrow> \<lparr>stdout = [], stderr = [''Unknown search type: '' @ search_type], written = None, status = Exit 1\<rparr>
      | Some (Inl e) \<Rightarrow> cli_error [] e
      | Some (Inr ms) \<Rightarrow> cli_ok (search_report term ms))"

section \<open>Writing batches\<close>

text \<open>
  Arrow's writers and the pretty printer are parameters: \<open>csv_batch header b\<close> is the text of a batch,
  with the header line when \<open>header\<close> holds; \<open>json_batch\<close> its lines of JSON.
\<close>

record ('rb) batch_lib =
  num_rows :: "'rb \<Rightarrow> nat"
  csv_batch :: "bool \<Rightarrow> 'rb \<Rightarrow> pdq_error + string"
  json_batch :: "'rb \<Rightarrow> pdq_error + string"
  json_finish :: "pdq_error + string"
  pretty_batches :: "'rb list \<Rightarrow> pdq_error + string list"

text \<open>Writing batch after batch up to the first error; what was written before stays written.\<close>

fun write_csv :: "'rb batch_lib \<Rightarrow> bool \<Rightarrow> 'rb list \<Rightarrow> string \<times> (pdq_error + unit)" where
  "write_csv R header [] = ([], Inr ())"
| "write_csv R header (b # bs) =
     (case csv_batch R header b of
        Inl e \<Rightarrow> ([], Inl e)
      | Inr s \<Rightarrow> (case write_csv R False bs of (t, r) \<Rightarrow> (s @ t, r)))"

definition write_batches_as_csv :: "'rb batch_lib \<Rightarrow> 'rb list \<Rightarrow> string \<times> (pdq_error + unit)" where
  "write_batches_as_csv R batches = (if batches = [] then ([], Inr ()) else write_csv R True batches)"

fun write_json :: "'rb batch_lib \<Rightarrow> 'rb list \<Rightarrow> string \<times> (pdq_error + unit)" where
  "write_json R [] = (case json_finish R of Inl e \<Rightarrow> ([], Inl e) | Inr s \<Rightarrow> (s, Inr ()))"
| "write_json R (b # bs) =
     (case json_batch R b of
        Inl e \<Rightarrow> ([], Inl e)
      | Inr s \<Rightarrow> (case write_json R bs of (t, r) \<Rightarrow> (s @ t, r)))"

definition write_batches_as_json :: "'rb batch_lib \<Rightarrow> 'rb list \<Rightarrow> string \<times> (pdq_error + unit)" where
  "write_batches_as_json R batches = (if batches = [] then ([], Inr ()) else write_json R batches)"

section \<open>query\<close>

text \<open>The signs at the head of some lines, in UTF-8.\<close>

definition sign_lens :: string where "sign_lens = [CHR 0xF0, CHR 0x9F, CHR 0x94, CHR 0x8D]"
definition sign_zap :: string where "sign_zap = [CHR 0xE2, CHR 0x9A, CHR 0xA1]"
definition sign_chart :: string where "sign_chart = [CHR 0xF0, CHR 0x9F, CHR 0x93, CHR 0x8A]"
definition sign_folder :: string where "sign_folder = [CHR 0xF0, CHR 0x9F, CHR 0x93, CHR 0x81]"
definition sign_target :: string where "sign_target = [CHR 0xF0, CHR 0x9F, CHR 0x8E, CHR 0xAF]"
definition sign_board :: string where "sign_board = [CHR 0xF0, CHR 0x9F, CHR 0x93, CHR 0x8B]"

definition query_banner :: "column \<Rightarrow> string \<Rightarrow> path \<Rightarrow> path \<Rightarrow> string list" where
  "query_banner column term index_path data_path =
     [sign_lens @ '' PDQ Query Starting...'',
      ''   Term: '' @ [CHR 0x27] @ term @ [CHR 0x27] @ '' in column '' @ [CHR 0x27] @ column @ [CHR 0x27],
      ''   Index: '' @ index_path,
      ''   Data: '' @ data_path]"

definition zero_match_report :: "string \<Rightarrow> string list" where
  "zero_match_report elapsed =
     [sign_zap @ '' ZERO-MATCH OPTIMIZATION TRIGGERED!'',
      ''   Index lookup: '' @ elapsed,
      ''   Files scanned: 0'',
      ''   Bytes read: 0'',
      ''   Result: No matches found (authoritative from index)'']"

definition index_report :: "file_matches list \<Rightarrow> string list" where
  "index_report ms =
     [sign_chart @ '' Index Results:'',
      ''   Found '' @ show_nat (total_row_groups ms) @ '' matching row groups across '' @
        show_nat (length ms) @ '' files''] @
     map (\<lambda>m. ''   '' @ sign_folder @ '' File '' @ file_path m @ '': row groups '' @ show_list (row_groups m)) ms"

definition query_sql :: "column \<Rightarrow> string \<Rightarrow> string" where
  "query_sql column term =
     ''SELECT * FROM pdq_table WHERE '' @ column @ '' = '' @ [CHR 0x27] @ term @ [CHR 0x27]"

datatype writer = Csv | Json

definition writer_of :: "string \<Rightarrow> writer" where
  "writer_of fmt =
     (if fmt = ''csv'' then Csv
      else if fmt = ''json'' \<or> fmt = ''jsonl'' \<or> fmt = ''ndjson'' then Json
      else if fmt = ''table'' then Csv
      else Json)"

text \<open>Printing the results: the terminal table, a file, or the text on standard output.\<close>

definition output_results ::
  "'rb batch_lib \<Rightarrow> (path \<Rightarrow> pdq_error + unit) \<Rightarrow> string list \<Rightarrow> 'rb list \<Rightarrow> string \<Rightarrow> path option \<Rightarrow> cli_run" where
  "output_results R create_file ls results fmt output_file =
     (if fmt = ''table'' \<and> output_file = None then
        (let ls = ls @ [[], sign_board @ '' Output:'']
         in case pretty_batches R results of
           Inl e \<Rightarrow> cli_error ls e
         | Inr table \<Rightarrow> cli_ok (ls @ table))
      else
        (let ls = ls @ (case output_file of
                          Some p \<Rightarrow> [''Writing results to file: '' @ p]
                        | None \<Rightarrow> [[], sign_board @ '' Output:''])
         in case (case output_file of None \<Rightarrow> Inr () | Some p \<Rightarrow> create_file p) of
           Inl e \<Rightarrow> cli_error ls e
         | Inr _ \<Rightarrow>
             (case (case writer_of fmt of Csv \<Rightarrow> write_batches_as_csv R results
                    | Json \<Rightarrow> write_batches_as_json R results) of
                (text, r) \<Rightarrow>
                  \<lparr>stdout = (case output_file of None \<Rightarrow> ls @ [text] | Some p \<Rightarrow> ls), stderr = [],
                   written = map_option (\<lambda>p. (p, text)) output_file,
                   status = (case r of Inl e \<Rightarrow> Error e | Inr _ \<Rightarrow> Success)\<rparr>)))"

definition query_command ::
  "('b, 'f, 's) fst_lib \<Rightarrow> 'sch schema_lib \<Rightarrow> ('s, 'sch, 'm, 'ctx, 'df, 'rb) df_lib \<Rightarrow> 'rb batch_lib
   \<Rightarrow> (path \<Rightarrow> pdq_error + unit) \<Rightarrow> string \<Rightarrow> 'f world
   \<Rightarrow> column \<Rightarrow> string \<Rightarrow> path \<Rightarrow> path \<Rightarrow> string \<Rightarrow> path option \<Rightarrow> cli_run" where
  "query_command L C D R create_file elapsed w column term index_path data_path fmt output_file =
     (let ls = query_banner column term index_path data_path
      in case fst (exact_search L w (engine_new w index_path) column term) of
        Inl e \<Rightarrow> cli_error ls e
      | Inr ms \<Rightarrow>
     (if ms = [] then cli_ok (ls @ zero_match_report elapsed)
      else let ls = ls @ index_report ms
      in case provider_build C w (with_data_dir data_path (with_index_dir index_path
               (with_table_name ''pdq_table'' builder_default))) of
        Inl e \<Rightarrow> cli_error ls e
      | Inr table_provider \<Rightarrow>
     (case register_table D ''pdq_table'' table_provider of
        Inl e \<Rightarrow> cli_error ls e
      | Inr ctx \<Rightarrow>
     (let sql = query_sql column term;
          ls = ls @ [sign_lens @ '' Executing SQL: '' @ sql]
      in case ctx_sql D ctx sql of
        Inl e \<Rightarrow> cli_error ls e
      | Inr df \<Rightarrow>
     (case collect_batches D df of
        Inl e \<Rightarrow> cli_error ls e
      | Inr results \<Rightarrow>
     (let ls = ls @ [sign_target @ '' Query Complete!'', ''   Total time: '' @ elapsed]
      in if results = [] then cli_ok (ls @ [''   Result: No matching records found in the data''])
         else output_results R create_file
                (ls @ [''   Result: Found '' @ show_nat (sum_list (map (num_rows R) results)) @ '' matching records''])
                results fmt output_file))))))"

section \<open>gen-corpus\<close>

definition gen_corpus_command ::
  "(nat \<Rightarrow> bool) \<Rightarrow> bool \<Rightarrow> path \<Rightarrow> string \<Rightarrow> string \<Rightarrow> string \<Rightarrow> string \<Rightarrow> cli_run \<times> (path \<times> written_file) list" where
  "gen_corpus_command limit_ok checks out files groups rows seed =
     (case parse_usize files of
        Inl e \<Rightarrow> (cli_error [] (ParseIntError e), [])
      | Inr files \<Rightarrow>
     (case parse_usize groups of
        Inl e \<Rightarrow> (cli_error [] (ParseIntError e), [])
      | Inr groups \<Rightarrow>
     (case parse_usize rows of
        Inl e \<Rightarrow> (cli_error [] (ParseIntError e), [])
      | Inr rows \<Rightarrow>
     (case parse_usize seed of
        Inl e \<Rightarrow> (cli_error [] (ParseIntError e), [])
      | Inr seed \<Rightarrow>
     (case write_corpus limit_ok checks out files groups rows (of_nat seed) of
        (corpus, Panics) \<Rightarrow> (\<lparr>stdout = [], stderr = [], written = None, status = Panicked\<rparr>, corpus)
      | (corpus, Fails e) \<Rightarrow> (cli_error [] e, corpus)
      | (corpus, Returns _) \<Rightarrow>
          (cli_ok [''Wrote corpus: '' @ show_nat files @ '' files -> '' @ out], corpus))))))"

section \<open>main\<close>

text \<open>
  What clap hands over: the subcommand with its arguments, an optional one being \<open>None\<close> when it is
  not given.  \<open>gen-corpus\<close> exists only with the feature \<open>shootout\<close>.
\<close>

datatype subcommand =
    IndexCmd path column "path option" bool
  | SearchCmd column string "path option" "string option"
  | QueryCmd column string "path option" path "string option" "path option"
  | GenCorpusCmd path string string string "string option"
  | NoCmd

definition default_to :: "'a \<Rightarrow> 'a option \<Rightarrow> 'a" where
  "default_to d x = (case x of None \<Rightarrow> d | Some y \<Rightarrow> y)"

definition cli_main ::
  "(nat \<Rightarrow> bool) \<Rightarrow> bool \<Rightarrow> ('b, 'f, 's) fst_lib \<Rightarrow> 'sch schema_lib \<Rightarrow> ('s, 'sch, 'm, 'ctx, 'df, 'rb) df_lib \<Rightarrow> 'rb batch_lib
   \<Rightarrow> (path \<Rightarrow> pdq_error + unit) \<Rightarrow> string \<Rightarrow> 'f world \<Rightarrow> subcommand
   \<Rightarrow> cli_run \<times> 'f world \<times> (path \<times> written_file) list" where
  "cli_main limit_ok checks L C D R create_file elapsed w cmd =
     (case cmd of
        IndexCmd path column output prune \<Rightarrow>
          (case index_command L w path column (default_to ''pdq-index'' output) prune of (r, w') \<Rightarrow> (r, w', []))
      | SearchCmd column term dir type \<Rightarrow>
          (search_command L w column term (default_to ''pdq-index'' dir) (default_to ''exact'' type), w, [])
      | QueryCmd column term dir data_path fmt output_file \<Rightarrow>
          (query_command L C D R create_file elapsed w column term (default_to ''pdq-index'' dir) data_path
             (default_to ''table'' fmt) output_file, w, [])
      | GenCorpusCmd out files groups rows seed \<Rightarrow>
          (case gen_corpus_command limit_ok checks out files groups rows (default_to ''42'' seed) of
             (r, corpus) \<Rightarrow> (r, w, corpus))
      | NoCmd \<Rightarrow>
          (\<lparr>stdout = [], stderr = [''No subcommand provided. Use --help for usage information.''],
             written = None, status = Exit 1\<rparr>, w, []))"

end
