(* ===== verification/Cli_Properties.thy ===== *)
theory Cli_Properties
  imports Index_Query Cli
begin

text \<open>
  What the command line tool guarantees: what \<open>search\<close> prints after \<open>index\<close>, which values the
  \<open>range\<close> type covers, and when \<open>query\<close> ends without reading data.
\<close>

section \<open>index, then search\<close>

lemma answers_cong:
  assumes "answers w S column hit ms"
    "\<And>p f v n. p \<in> S \<Longrightarrow> map_of (data w) p = Some f \<Longrightarrow> (v, n) \<in> file_pairs column f \<Longrightarrow> hit v = hit' v"
  shows "answers w S column hit' ms"
proof -
  have "hit_row_groups hit (file_pairs column f) = hit_row_groups hit' (file_pairs column f)"
    if "p \<in> S" "map_of (data w) p = Some f" for p f
    by (rule hit_row_groups_cong) (rule assms(2) [OF that])
  note eq = this
  show ?thesis
    unfolding answers_def
  proof
    fix m
    show "m \<in> set ms \<longleftrightarrow> (\<exists>f. file_path m \<in> S \<and> map_of (data w) (file_path m) = Some f
        \<and> row_groups m = hit_row_groups hit' (file_pairs column f) \<and> row_groups m \<noteq> [])"
      using assms(1) [unfolded answers_def, THEN spec, of m] eq [of "file_path m"] by auto
  qed
qed

lemma plain_filesD:
  "plain_files w dir column \<Longrightarrow> p \<in> set (walk_parquet w dir) \<Longrightarrow> map_of (data w) p = Some f \<Longrightarrow>
   (v, n) \<in> file_pairs column f \<Longrightarrow> CHR 0x00 \<notin> set v"
  by (fastforce simp: plain_files_def plain_values_def)

lemma index_command_current:
  assumes "fst_ok L" "index_history L dir root column H w" "stat_determines H"
  obtains ls w' where "index_command L w dir column root False = (cli_ok ls, w')" "data w' = data w"
    "all_current L H (set (walk_parquet w dir)) w' root column"
proof -
  from history_built [OF assms] obtain w' where "build_index L root w dir column = (Inr (), w')"
    "data w' = data w" "all_current L H (set (walk_parquet w dir)) w' root column" by metis
  then show thesis by (auto simp: index_command_def build_command_def Let_def intro: that)
qed


section \<open>Range searches\<close>

lemma between_tilde: "t \<le> v \<and> v \<le> t @ ''~'' \<longleftrightarrow> (\<exists>x. v = t @ x \<and> x \<le> ''~'')" for t v :: string
proof
  assume v: "t \<le> v \<and> v \<le> t @ ''~''"
  have "prefix t v"
  proof (rule ccontr)
    assume np: "\<not> prefix t v"
    with v have "t < v" by (metis order_le_less prefix_order.refl)
    moreover from np v have "\<not> prefix v t" by (metis order_antisym prefix_le prefix_order.refl)
    with np have "t @ ''~'' < v @ [] \<longleftrightarrow> t < v" by (intro parallel_less_append) (simp add: parallel_def)
    ultimately show False using v leD by auto
  qed
  with v show "\<exists>x. v = t @ x \<and> x \<le> ''~''" by (auto elim!: prefixE)
next
  assume "\<exists>x. v = t @ x \<and> x \<le> ''~''"
  then show "t \<le> v \<and> v \<le> t @ ''~''" by (auto intro: prefix_le)
qed

lemma range_hit_tilde:
  "CHR 0x00 \<notin> set v \<Longrightarrow> range_hit t (t @ ''~'') v \<longleftrightarrow> (\<exists>x. v = t @ x \<and> x \<le> ''~'')"
  by (auto simp: range_hit_def between_tilde [symmetric] elim!: prefixE)

text \<open>
  C31. The range search of the command line finds the values that continue the term with at most
  a tilde: it is neither the values from the term on nor all values with the term as prefix.
\<close>

theorem range_command_is_restricted_prefix:
  assumes "fst_ok L" "index_history L dir root column H w" "stat_determines H" "plain_files w dir column"
    "CHR 0x00 \<notin> set t"
  shows "\<exists>ls w' ms. index_command L w dir column root False = (cli_ok ls, w')
    \<and> search_command L w' column t root ''range'' = cli_ok (search_report t ms)
    \<and> answers w (set (walk_parquet w dir)) column (\<lambda>v. \<exists>x. v = t @ x \<and> x \<le> ''~'') ms"
proof -
  from index_command_current [OF assms(1-3)] obtain ls w' where w':
    "index_command L w dir column root False = (cli_ok ls, w')" "data w' = data w"
    "all_current L H (set (walk_parquet w dir)) w' root column" by metis
  from range_search_current [OF w'(3) opened_on_new assms(5), of "t @ ''~''"] assms(5) obtain ms e' where
    ms: "range_search L w' (engine_new w' root) column t (t @ ''~'') = (Inr ms, e')"
    "answers w' (set (walk_parquet w dir)) column (range_hit t (t @ ''~'')) ms" by auto
  have "answers w' (set (walk_parquet w dir)) column (\<lambda>v. \<exists>x. v = t @ x \<and> x \<le> ''~'') ms"
    by (rule answers_cong [OF ms(2)])
       (use plain_filesD [OF assms(4)] w'(2) in \<open>auto simp: range_hit_tilde\<close>)
  with w'(1) ms(1) show ?thesis
    unfolding answers_data [OF w'(2)] by (auto simp: search_command_def dispatch_search_def)
qed

theorem range_command_is_restricted_prefix_witness:
  "\<exists>ls w' ms. index_command list_fst ex_world ''d'' ''ip'' ''pdq-index'' False = (cli_ok ls, w')
    \<and> search_command list_fst w' ''ip'' ''1'' ''pdq-index'' ''range'' = cli_ok (search_report ''1'' ms)
    \<and> answers ex_world {''d/a.parquet''} ''ip'' (\<lambda>v. \<exists>x. v = ''1'' @ x \<and> x \<le> ''~'') ms"
  using range_command_is_restricted_prefix [OF list_fst_ok ex_history ex_stat, of "''1''"]
  by (simp add: ex_walk plain_files_def ex_data plain_values_def ex_file_pairs)


section \<open>query\<close>

text \<open>Whatever happens after a match, the first line after the banner is that of the index report.\<close>

lemma output_results_prefix: "prefix ls (stdout (output_results R cf ls rs fmt out))"
  by (auto simp: output_results_def Let_def cli_error_def cli_ok_def split: sum.split prod.split option.split)

lemma output_results_after: "prefix ls ls' \<Longrightarrow> prefix ls (stdout (output_results R cf ls' rs fmt out))"
  using output_results_prefix prefix_order.trans by blast

lemma query_command_match:
  assumes "fst (exact_search L w (engine_new w root) column t) = Inr ms" "ms \<noteq> []"
  shows "prefix (query_banner column t root dp @ [sign_chart @ '' Index Results:''])
    (stdout (query_command L C D R cf elapsed w column t root dp fmt out))"
proof -
  obtain rest where i: "index_report ms = (sign_chart @ '' Index Results:'') # rest"
    by (simp add: index_report_def)
  show ?thesis
    unfolding query_command_def assms(1)
    using assms(2)
    by (auto simp: i Let_def cli_error_def cli_ok_def split: sum.split intro!: output_results_after)
qed

text \<open>
  C30. After the index command, the query command reports zero matches, without building a
  provider or running SQL, exactly when no walked file contains the term.
\<close>

theorem query_command_zero_match:
  assumes "fst_ok L" "index_history L dir root column H w" "stat_determines H" "plain_files w dir column"
  shows "\<exists>ls w'. index_command L w dir column root False = (cli_ok ls, w')
    \<and> (\<forall>t. query_command L C D R cf elapsed w' column t root dp fmt out =
             cli_ok (query_banner column t root dp @ zero_match_report elapsed)
         \<longleftrightarrow> \<not> (\<exists>p \<in> set (walk_parquet w dir). \<exists>f n. map_of (data w) p = Some f \<and> (t, n) \<in> file_pairs column f))"
proof -
  let ?S = "set (walk_parquet w dir)"
  from index_command_current [OF assms(1-3)] obtain ls w' where w':
    "index_command L w dir column root False = (cli_ok ls, w')" "data w' = data w"
    "all_current L H ?S w' root column" by metis
  have "query_command L C D R cf elapsed w' column t root dp fmt out =
        cli_ok (query_banner column t root dp @ zero_match_report elapsed)
      \<longleftrightarrow> \<not> (\<exists>p \<in> ?S. \<exists>f n. map_of (data w) p = Some f \<and> (t, n) \<in> file_pairs column f)" for t
  proof -
    from exact_search_current [OF w'(3) opened_on_new, of t] obtain ms e' where
      ms: "exact_search L w' (engine_new w' root) column t = (Inr ms, e')"
      "answers w' ?S column (exact_hit t) ms" by blast
    have a: "answers w' ?S column (\<lambda>v. v = t) ms"
      by (rule answers_cong [OF ms(2)]) (use plain_filesD [OF assms(4)] w'(2) in \<open>auto simp: exact_hit_no_NUL\<close>)
    have "ms = [] \<longleftrightarrow> \<not> (\<exists>p \<in> ?S. \<exists>f n. map_of (data w) p = Some f \<and> (t, n) \<in> file_pairs column f)"
      using answers_empty_iff [OF w'(3) a] w'(2) by auto
    moreover have "query_command L C D R cf elapsed w' column t root dp fmt out =
        cli_ok (query_banner column t root dp @ zero_match_report elapsed) \<longleftrightarrow> ms = []"
    proof
      assume q: "query_command L C D R cf elapsed w' column t root dp fmt out =
          cli_ok (query_banner column t root dp @ zero_match_report elapsed)"
      show "ms = []"
      proof (rule ccontr)
        assume "ms \<noteq> []"
        from query_command_match [OF _ this, of L w' root column t dp C D R cf elapsed fmt out] ms(1) q
        show False by (simp add: cli_ok_def zero_match_report_def sign_chart_def sign_zap_def)
      qed
    next
      assume "ms = []"
      with ms(1) show "query_command L C D R cf elapsed w' column t root dp fmt out =
          cli_ok (query_banner column t root dp @ zero_match_report elapsed)"
        by (simp add: query_command_def)
    qed
    ultimately show ?thesis by blast
  qed
  with w'(1) show ?thesis by blast
qed


text \<open>A run of the query command that meets no match uses neither schema nor session.\<close>

theorem query_command_zero_match_witness:
  "\<forall>(C :: unit schema_lib) (D :: (string list, unit, unit, unit, unit, unit) df_lib) (R :: unit batch_lib) cf.
    \<exists>ls w'. index_command list_fst ex_world ''d'' ''ip'' ''pdq-index'' False = (cli_ok ls, w')
    \<and> query_command list_fst C D R cf ''1ms'' w' ''ip'' ''7.7'' ''pdq-index'' ''d'' ''table'' None =
        cli_ok (query_banner ''ip'' ''7.7'' ''pdq-index'' ''d'' @ zero_match_report ''1ms'')"
proof (intro allI)
  fix C :: "unit schema_lib" and D :: "(string list, unit, unit, unit, unit, unit) df_lib"
    and R :: "unit batch_lib" and cf
  have "plain_files ex_world ''d'' ''ip''"
    by (auto simp: plain_files_def ex_data plain_values_def ex_file_pairs split: if_splits)
  from query_command_zero_match [OF list_fst_ok ex_history ex_stat this, of C D R cf "''1ms''" "''d''" "''table''" None]
  obtain ls w' where w': "index_command list_fst ex_world ''d'' ''ip'' ''pdq-index'' False = (cli_ok ls, w')"
    and q: "\<forall>t. query_command list_fst C D R cf ''1ms'' w' ''ip'' t ''pdq-index'' ''d'' ''table'' None =
             cli_ok (query_banner ''ip'' t ''pdq-index'' ''d'' @ zero_match_report ''1ms'')
         \<longleftrightarrow> \<not> (\<exists>p \<in> set (walk_parquet ex_world ''d''). \<exists>f n. map_of (data ex_world) p = Some f
              \<and> (t, n) \<in> file_pairs ''ip'' f)" by blast
  have "\<not> (\<exists>p \<in> set (walk_parquet ex_world ''d''). \<exists>f n. map_of (data ex_world) p = Some f
      \<and> (''7.7'', n) \<in> file_pairs ''ip'' f)" by (auto simp: ex_walk ex_data ex_file_pairs)
  with q [THEN spec, of "''7.7''"] w' show "\<exists>ls w'. index_command list_fst ex_world ''d'' ''ip'' ''pdq-index'' False = (cli_ok ls, w')
    \<and> query_command list_fst C D R cf ''1ms'' w' ''ip'' ''7.7'' ''pdq-index'' ''d'' ''table'' None =
        cli_ok (query_banner ''ip'' ''7.7'' ''pdq-index'' ''d'' @ zero_match_report ''1ms'')" by blast
qed

end
