(* ===== verification/Repository_Tests.thy ===== *)
theory Repository_Tests
  imports Index_Query Corpus_Gen Provider_Query
begin

text \<open>
  The unit tests of the repository, run on the model: each lemma states what the \<open>#[test]\<close> function
  of its name in \<open>src/query.rs\<close>, \<open>src/index.rs\<close> or \<open>src/provider.rs\<close> asserts, and is proved by
  evaluating the definitions with the list transducer.  (Tests that compare file hashes are left out:
  evaluating SipHash in the kernel takes too long.)
\<close>

section \<open>Test indexes\<close>

text \<open>\<open>write_test_fst\<close> of \<open>src/query.rs\<close>: an FST file with the given keys.\<close>

definition write_test_fst :: "string \<Rightarrow> column \<Rightarrow> string list \<Rightarrow> string list world \<Rightarrow> string list world" where
  "write_test_fst file_hash column keys w =
     (case create_index_dir ''i'' file_hash w of
        Inl e \<Rightarrow> w
      | Inr w' \<Rightarrow>
          (case write_fst list_fst keys of
             Inl e \<Rightarrow> write_fst_file ''i'' file_hash (fst_name column) Partial w'
           | Inr f \<Rightarrow> write_fst_file ''i'' file_hash (fst_name column) (Complete f) w'))"

definition test_root :: "string list world" where
  "test_root = create_root ''i'' \<lparr>data = [], indexes = (\<lambda>_. None)\<rparr>"

definition test_engine :: "string list world \<Rightarrow> string list engine" where
  "test_engine w = engine_new w ''i''"

definition sep :: string where
  "sep = [VALUE_RG_SEPARATOR]"

section \<open>src/query.rs\<close>

lemma test_exact_search:
  "let w = write_test_fst ''test123'' ''src_ip''
         [''1.2.3.4'' @ sep @ ''rg0'', ''1.2.3.4'' @ sep @ ''rg1'', ''5.6.7.8'' @ sep @ ''rg0''] test_root
   in fst (exact_search list_fst w (test_engine w) ''src_ip'' ''1.2.3.4'') =
        Inr [\<lparr>file_path = ''file-test123'', row_groups = [0, 1]\<rparr>]"
  by code_simp

lemma test_exact_search_multi:
  "let w = write_test_fst ''h2'' ''src_ip'' [''1.1.1.1'' @ sep @ ''rg3'']
         (write_test_fst ''h1'' ''src_ip'' [''1.1.1.1'' @ sep @ ''rg0'', ''2.2.2.2'' @ sep @ ''rg1''] test_root)
   in fst (exact_search_multi list_fst w (test_engine w) ''src_ip'' [''1.1.1.1'', ''2.2.2.2'', ''9.9.9.9'']) = Inr 3
      \<and> fst (exact_search_multi list_fst w (test_engine w) ''nope'' [''1.1.1.1'']) = Inr 0"
  by code_simp

lemma test_exact_search_column_isolation_and_repeatable:
  "let w = write_test_fst ''h1'' ''dst_ip'' [''1.2.3.4'' @ sep @ ''rg5'']
         (write_test_fst ''h1'' ''src_ip'' [''1.2.3.4'' @ sep @ ''rg0''] test_root);
       (src, e1) = exact_search list_fst w (test_engine w) ''src_ip'' ''1.2.3.4'';
       (dst, e2) = exact_search list_fst w e1 ''dst_ip'' ''1.2.3.4'';
       (src_again, e3) = exact_search list_fst w e2 ''src_ip'' ''1.2.3.4''
   in src = Inr [\<lparr>file_path = ''file-h1'', row_groups = [0]\<rparr>]
      \<and> dst = Inr [\<lparr>file_path = ''file-h1'', row_groups = [5]\<rparr>] \<and> src_again = src"
  by code_simp

lemma test_parse_row_group_from_key:
  "parse_row_group_from_key (''1.2.3.4'' @ sep @ ''rg5'') = Inr (Some 5)
   \<and> parse_row_group_from_key ''invalid_key'' = Inr None
   \<and> parse_row_group_from_key (''value'' @ sep @ ''with'' @ sep @ ''nulls'' @ sep @ ''rg42'') = Inr (Some 42)
   \<and> parse_row_group_from_key (''value'' @ sep @ ''notrowgroup'') = Inr None"
  by code_simp

lemma test_prefix_search:
  "let w = write_test_fst ''test456'' ''src_ip''
         [''10.0.0.1'' @ sep @ ''rg2'', ''192.168.1.1'' @ sep @ ''rg0'', ''192.168.1.2'' @ sep @ ''rg1'',
          ''192.168.2.1'' @ sep @ ''rg0''] test_root
   in fst (prefix_search list_fst w (test_engine w) ''src_ip'' ''192.168.1'') =
        Inr [\<lparr>file_path = ''file-test456'', row_groups = [0, 1]\<rparr>]"
  by code_simp

lemma test_range_search:
  "let w = write_test_fst ''rangehash'' ''code''
         [''100'' @ sep @ ''rg0'', ''150'' @ sep @ ''rg1'', ''200'' @ sep @ ''rg2'', ''250'' @ sep @ ''rg3'',
          ''300'' @ sep @ ''rg4''] test_root
   in fst (range_search list_fst w (test_engine w) ''code'' ''150'' ''250'') =
        Inr [\<lparr>file_path = ''file-rangehash'', row_groups = [1, 2, 3]\<rparr>]
      \<and> fst (range_search list_fst w (test_engine w) ''code'' ''000'' ''099'') = Inr []"
  by code_simp

lemma test_get_available_columns:
  "let w = write_meta ''i'' ''h1'' (''x'' @ [CHR 0x0A])
         (write_test_fst ''h1'' ''dst_ip'' [''5.6.7.8'' @ sep @ ''rg0'']
           (write_test_fst ''h1'' ''src_ip'' [''1.2.3.4'' @ sep @ ''rg0''] test_root))
   in get_available_columns w (test_engine w) ''h1'' = Inr [''dst_ip'', ''src_ip'']
      \<and> get_available_columns w (test_engine w) ''missing'' = Inr []"
  by code_simp

lemma test_list_indexed_files:
  "let w = write_test_fst ''hb'' ''value'' [''b'' @ sep @ ''rg0'']
         (write_test_fst ''ha'' ''value'' [''a'' @ sep @ ''rg0''] test_root)
   in sort (list_indexed_files w (test_engine w)) = [''ha'', ''hb'']"
  by code_simp

section \<open>src/index.rs, src/provider.rs\<close>

lemma test_append_usize:
  "append_usize ROW_GROUP_PREFIX 42 = ''rg42'' \<and> append_usize ROW_GROUP_PREFIX 0 = ''rg0''
   \<and> append_usize ROW_GROUP_PREFIX 999 = ''rg999''"
  by code_simp

lemma test_extract_equality_filter:
  "extract_equality_filter (\<lambda>v. v) (BinaryExpr (Column None ''test_col'') Eq (Literal ''test_value''))
     = Some (''test_col'', ''test_value'')"
  by simp

lemma test_pdq_table_provider_builder:
  "provider_build C test_root (with_row_selections True (with_table_name ''test_table''
     (with_data_dir ''data'' (with_index_dir ''i'' builder_default)))) =
   Inl (Missing ''No Parquet files found in directory'')"
  by (simp add: provider_build_def provider_new_def infer_schema_from_directory_def walk_parquet_def test_root_def
      with_row_selections_def with_table_name_def with_data_dir_def with_index_dir_def builder_default_def)

end
