(* ===== verification/Spec2Isabelle.thy ===== *)
theory Spec2Isabelle
  imports Search_Properties Parallel_Properties Index_Properties Provider_Properties Legacy_Index Corpus_Properties Bloom_Properties
    Py_Properties Cli_Properties Repository_Tests
begin

text \<open>
  Verification of pdq, a secondary index over directories of Parquet files.

  \<^bold>\<open>The program.\<close>  pdq finds the files and row groups that hold a value without opening the Parquet
  files.  The indexer (\<open>src/index.rs\<close>) walks a data directory and keeps, for each Parquet file, a
  directory named by the hash of its path, with one finite state transducer per indexed column and
  a \<open>metadata.txt\<close> (path, modification time, size, number of row groups).  The keys of a transducer
  are a value, a NUL byte, and \<open>rg\<close> with the number of a row group that contains the value.  The
  query engine (\<open>src/query.rs\<close>) opens such an index root, keeps transducers resident, and answers
  exact, prefix and range searches by range scans over the keys.  The table provider
  (\<open>src/provider.rs\<close>) gives DataFusion a table whose scans read only the row groups the engine
  reports for the equality filters, with a cache of parsed Parquet footers behind them.  The command
  line tool (\<open>src/bin/pdq.rs\<close>) and the Python module (\<open>src/py_module.rs\<close>) put these together; the
  benchmarks have a corpus generator (\<open>src/corpus_gen.rs\<close>) and a bloom filter probe
  (\<open>src/bloom_probe.rs\<close>) to compare with.

  \<^bold>\<open>Conventions.\<close>  A Rust string, path or byte slice is the list of its bytes.  The operations that
  change state take and return it: the files on disk are a \<open>world\<close>, the resident transducers an
  \<open>engine\<close>, the footers a \<open>metadata_cache\<close>.  A \<open>Result\<close> is a sum with the error on the left, and a
  failing operation returns the state it leaves behind.  Loops are structural recursions over the
  list they walk, so nothing has fuel; the one other recursion, the UTF-8 decoder, has a measure.
  A \<open>usize\<close> read from text is bounded by \<open>2 ^ 64\<close> where the code parses it; hashes, random numbers,
  byte and cache counters are \<open>64 word\<close> and wrap around.  A \<open>HashMap\<close> is an association list in the
  order in which it is visited; the properties are stated up to that order.

  \<^bold>\<open>The theories\<close>, in the order in which they build on each other:

  \<^item> \<^theory_text>\<open>Prelude\<close>: types, bounds and errors, lemmas on lists, maps and byte order.
  \<^item> \<^theory_text>\<open>Utf8\<close>: \<open>char::from_u32\<close>, encoding and decoding, for the bounds of a prefix search and for
    reading values from keys.
  \<^item> \<^theory_text>\<open>Key_Format\<close>: \<open>key_format\<close> of \<open>src/lib.rs\<close>, the key buffer of \<open>Indexer::index_file\<close> and
    \<open>parse_row_group_from_key\<close>: writing and reading a key are inverse.
  \<^item> \<^theory_text>\<open>File_Hash\<close>: \<open>calculate_file_hash\<close>, SipHash-1-3 on \<open>64 word\<close>.
  \<^item> \<^theory_text>\<open>Fst_Set\<close>: the \<open>fst\<close> crate as the parameter \<open>fst_lib\<close>, with the hypothesis \<open>fst_ok\<close>.
  \<^item> \<^theory_text>\<open>Set_Search\<close>: the searches inside one transducer (\<open>search_set\<close>, \<open>prefix_search_set\<close>,
    \<open>range_search_set\<close>, \<open>set_has_term\<close>) and the locale \<open>set_search\<close>, the contract of a search: on the
    keys of a set of pairs it returns, ascending, the row groups of the pairs that hit.
  \<^item> \<^theory_text>\<open>World\<close>: data files, index directories, and the pieces of \<open>std::path\<close> the code uses.
  \<^item> \<^theory_text>\<open>Indexer\<close>: \<open>Indexer\<close> (\<open>index_file\<close>, \<open>needs_indexing\<close>, \<open>build_index\<close>, \<open>prune_orphans\<close>).
  \<^item> \<^theory_text>\<open>Index_Currency\<close>: when an entry of an index is up to date, and that building makes it so.
  \<^item> \<^theory_text>\<open>Read_Through\<close>: the locale \<open>read_cache\<close> of a cache that loads on a miss.
  \<^item> \<^theory_text>\<open>Query_Engine\<close>: \<open>IndexQueryEngine\<close> (\<open>build_file_map\<close>, \<open>get_or_load_set\<close>, the searches over all
    files, the listings).
  \<^item> \<^theory_text>\<open>Task_Pool\<close>: the locale \<open>task_pool\<close> of tasks that run concurrently on shared state.
  \<^item> \<^theory_text>\<open>Parallel_Search\<close>: the rayon tasks of \<open>search_all\<close> and \<open>exact_search_multi\<close>, with the locked
    sections of \<open>get_or_load_set\<close>, as the step relation \<open>pool_step\<close>.
  \<^item> \<^theory_text>\<open>Index_Query\<close>: indexer and engine together.  \<open>index_history\<close> is the relation of the worlds that
    builds and changes of old or new files lead to; on each of them the index is in step with the
    versions the files have had, and the search lemmas of \<open>set_search\<close> lift to the engine.
  \<^item> \<^theory_text>\<open>Metadata_Cache\<close>: \<open>MetadataCache\<close>, the cached reader and its factory; \<open>reader_step\<close> interleaves
    the lock-protected sections of concurrent lookups.
  \<^item> \<^theory_text>\<open>Provider\<close>, \<^theory_text>\<open>Provider_Query\<close>: filter extraction, pruning, access plans, \<open>scan\<close>, the schema and
    the builder; and what a scan plans on a current index.
  \<^item> \<^theory_text>\<open>Legacy_Index\<close>: indexes whose metadata lack the number of row groups, for which a scan reads the
    Parquet footer.
  \<^item> \<^theory_text>\<open>Session\<close>: what is used of a DataFusion session, a parameter.
  \<^item> \<^theory_text>\<open>Cli\<close>, \<^theory_text>\<open>Py_Module\<close>, \<^theory_text>\<open>Corpus_Gen\<close>, \<^theory_text>\<open>Bloom_Probe\<close>: the files of these names.
  \<^item> \<open>*_Properties\<close>: the properties of each part, with the lemmas only they need.
  \<^item> \<^theory_text>\<open>Repository_Tests\<close>: the unit tests of \<open>query.rs\<close>, \<open>index.rs\<close> and \<open>provider.rs\<close>, evaluated on the
    model.

  \<^bold>\<open>Interfaces.\<close>  \<open>set_search\<close> is interpreted for the exact, range and prefix search; the search
  properties rest on those three interpretations.  \<open>read_cache\<close> is interpreted for the engine's
  transducers (\<open>resident\<close>) and for the provider's footers (\<open>footers\<close>).  \<open>task_pool\<close> is interpreted for the
  parallel searches (\<open>searches\<close>) and for concurrent footer lookups (\<open>readers\<close>): it bounds their runs.
\<close>

text \<open>
  \<^bold>\<open>What is shown.\<close>  \<^theory_text>\<open>Search_Properties\<close>: after any history of builds and file changes, a build
  followed by searches answers for the files as they are, absence included; the limits of the key
  format (values with NUL, prefixes that end in the last character, the empty prefix).
  \<^theory_text>\<open>Parallel_Properties\<close>: every interleaving of parallel searches returns, and returns what the
  sequential model returns; tasks share one mapping of each transducer.
  \<^theory_text>\<open>Index_Properties\<close>: change detection and where it fails, what failures leave behind, pruning.
  \<^theory_text>\<open>Provider_Properties\<close>: which rows a scan keeps and which it gives up, also when files were deleted
  or replaced after indexing, soundness, termination and cost of the footer cache, the schema of a provider.  \<^theory_text>\<open>Cli_Properties\<close>, \<^theory_text>\<open>Py_Properties\<close>: what the
  user sees after indexing.  \<^theory_text>\<open>Corpus_Properties\<close>, \<^theory_text>\<open>Bloom_Properties\<close>: the planted values are found,
  when the generator panics, and the bloom probe over-approximates the index.

  \<^bold>\<open>Hypotheses on code outside the repository.\<close>
  \<^item> \<open>fst_ok\<close>: strictly ascending keys can be written, the file opens, and a range scan returns the
    keys at or above its lower and below its upper bound, in order.
  \<^item> \<open>plan_ok\<close>, \<open>paths_ok\<close>, \<open>session_ok\<close> (\<^theory_text>\<open>Provider_Query\<close>): a Parquet access plan selects the row groups
    that were scanned into it, data files have canonical paths the object store can express, and the
    session accepts the query; \<open>paths_of_data\<close>: canonical paths depend on the data files only.
  \<^item> \<open>merges_above\<close>: merging two schemas gives one above both, in an order of one's choice.
  \<^item> \<open>stores_batches\<close>: a Parquet file written with one flush per batch is read back as one row group
    for each with the same values; \<open>limit_ok\<close> says which row group limits the writer accepts.
  \<^item> \<open>blooms_cover\<close>: every row group has a bloom filter for the column without false negatives.
  Each is shown satisfiable by an instance (\<open>list_fst\<close>, a sorted list of keys, is the transducer of
  the witnesses).

  \<^bold>\<open>Hypotheses on the data.\<close>  \<open>files_ok\<close>: the hashes of the walked paths do not collide, paths survive
  \<open>metadata.txt\<close>, and files can be read.  \<open>stat_determines\<close>: two versions of a file with the same size
  and the same second of modification have the same contents.  \<open>plain_files\<close>: values without NUL.

  \<^bold>\<open>Not modelled.\<close>  \<open>src/parquet_filter.rs\<close> is not part of the crate: no module declares it, it
  imports a function that does not exist (\<open>create_table_provider_from_index_results\<close>), and it treats
  the result of \<open>exact_search\<close> as the map an earlier version returned, so it has no behaviour to
  state.  \<open>benches/\<close> times the operations and keeps no state.  Left
  out as input and output only: progress messages and durations, the argument declarations of clap,
  the module registration and conversions of PyO3, \<open>writer_props\<close> (options of the Parquet writer).
  The parallel hashing of \<open>resolve_file_paths\<close>, the parallel listing and
  the parallel schema reads are visited in order: their tasks share nothing.  Writing metadata and creating directories
  does not fail in the model; building and finishing a transducer does, and so does everything that
  is read.  What DataFusion does with the scan configuration, and how it evaluates
  SQL, is outside.
\<close>

end
